theory Spec2Isabelle
  imports Complex_Main
begin

section \<open>The layer manager of deck.gl (src/lib/layer-manager.js)\<close>

text \<open>
  The class \<^verbatim>\<open>LayerManager\<close> keeps the list of live layers, matches the layers
  of a new frame against it by id, moves the state objects over and runs the lifecycle
  methods of the layers. Layers and state objects are JavaScript objects that are shared
  and mutated in place, so the model keeps them in an explicit store addressed by
  references; the manager itself is a record that every method takes and returns.

  Naming: a private method \<^verbatim>\<open>_foo\<close> of the source is the constant \<open>foo\<close> here
  (\<^verbatim>\<open>_updateLayers\<close> is \<open>updateLayers_internal\<close>, since \<open>updateLayers\<close> is the
  public method). The field \<^verbatim>\<open>context\<close> is written \<open>context_obj\<close> and the field
  \<^verbatim>\<open>id\<close> of a layer \<open>layer_id\<close>.

  The methods \<^verbatim>\<open>drawLayers\<close> and \<^verbatim>\<open>pickLayer\<close> only read the list of live layers and
  hand it to code outside the file; they are not modelled, and neither are the calls of
  \<^verbatim>\<open>log\<close>.
\<close>

subsection \<open>Thrown values\<close>

text \<open>
  What a \<^verbatim>\<open>throw\<close> carries: the \<^verbatim>\<open>AssertionError\<close> of \<^verbatim>\<open>assert\<close>, or an error
  raised inside a method of a layer. Both are objects, hence truthy, so that
  \<^verbatim>\<open>error || e\<close> on them is "the first one that is not null"; \<open>None\<close> is \<^verbatim>\<open>null\<close>.
\<close>

datatype error = AssertionError string | LayerError string

subsection \<open>The viewport context\<close>

text \<open>The parameter object of \<^verbatim>\<open>setContext\<close>. JavaScript numbers are read as reals
  (the comparison \<^verbatim>\<open>!==\<close> is inequality of values; \<^verbatim>\<open>NaN\<close> is not modelled).\<close>

record camera =
  width :: real
  height :: real
  latitude :: real
  longitude :: real
  zoom :: real
  pitch :: real
  bearing :: real
  altitude :: real

text \<open>Modelled from the spec: the class \<^verbatim>\<open>Viewport\<close> (../viewport) is not part of the
  file. A viewport is built from the camera parameters and a tile size and exposes the
  parameters it was built from; its projection uniforms are an opaque bundle that only
  depends on the viewport.\<close>

datatype viewport = Viewport (camera_of: camera) (tileSize: nat)

datatype uniforms = No_uniforms | Uniforms_of viewport

type_synonym gl = nat

record context_rec =
  gl :: gl
  viewport :: "viewport option"
  viewportChanged :: bool
  uniforms :: uniforms

subsection \<open>Layers, state objects and the store\<close>

type_synonym layer_ref = nat
type_synonym state_ref = nat
type_synonym props = nat

text \<open>
  A layer object. The first five fields are the ones the manager reads and writes.
  The class \<^verbatim>\<open>Layer\<close> (./layer) is not part of the file, so what its methods do is a
  parameter of each layer object, held in the remaining fields:
  \<^item> \<open>needsRedraw_flag\<close> is what \<^verbatim>\<open>getNeedsRedraw\<close> reports;
  \<^item> \<^verbatim>\<open>initializeLayer\<close> assigns a new state object to \<^verbatim>\<open>this.state\<close> when
    \<open>initializeLayer_creates_state\<close> holds (with a model when
    \<open>initializeLayer_creates_model\<close> holds) and then throws \<open>initializeLayer_raises\<close>
    if that is an error;
  \<^item> \<^verbatim>\<open>updateLayer\<close> and \<^verbatim>\<open>finalizeLayer\<close> throw \<open>updateLayer_raises\<close> and
    \<open>finalizeLayer_raises\<close> if these are errors.
  The call of \<^verbatim>\<open>diffProps\<close> that computes the \<^verbatim>\<open>changeFlags\<close> argument stands inside
  the same \<^verbatim>\<open>try\<close> block as the method it feeds and is part of that method's outcome.
\<close>

record layer =
  layer_id :: string
  props :: props
  oldProps :: "props option"
  state :: "state_ref option"
  has_context :: bool
  needsRedraw_flag :: bool
  initializeLayer_creates_state :: bool
  initializeLayer_creates_model :: bool
  initializeLayer_raises :: "error option"
  updateLayer_raises :: "error option"
  finalizeLayer_raises :: "error option"

text \<open>A state object: \<^verbatim>\<open>state.layer\<close> and \<^verbatim>\<open>state.model.userData.layer\<close> are the
  back pointers the manager maintains. The class of the model is not part of the file; a
  model is taken to carry its \<^verbatim>\<open>userData\<close> object, so that writing the back pointer
  does not throw.\<close>

record model_obj =
  userData_layer :: "layer_ref option"

record state_obj =
  back_layer :: "layer_ref option"
  model :: "model_obj option"

text \<open>The calls of layer methods the manager makes, in the order it makes them.\<close>

datatype event =
  Initialize layer_ref | Update layer_ref | Finalize layer_ref | Render layer_ref

record world =
  layer_at :: "layer_ref \<Rightarrow> layer"
  state_at :: "state_ref \<Rightarrow> state_obj"
  next_state :: state_ref
  calls :: "event list"

definition set_layer :: "layer_ref \<Rightarrow> (layer \<Rightarrow> layer) \<Rightarrow> world \<Rightarrow> world" where
  "set_layer r f w = w\<lparr>layer_at := (layer_at w)(r := f (layer_at w r))\<rparr>"

definition set_state :: "state_ref \<Rightarrow> (state_obj \<Rightarrow> state_obj) \<Rightarrow> world \<Rightarrow> world" where
  "set_state s f w = w\<lparr>state_at := (state_at w)(s := f (state_at w s))\<rparr>"

definition record_call :: "event \<Rightarrow> world \<Rightarrow> world" where
  "record_call e w = w\<lparr>calls := calls w @ [e]\<rparr>"

text \<open>
  A layer of the new frame together with what its \<^verbatim>\<open>renderLayers\<close> returns when the
  manager calls it: it throws, or returns \<^verbatim>\<open>null\<close>, one layer, or an array of layers
  that may hold \<^verbatim>\<open>null\<close> entries.
\<close>

datatype new_layer = Layer layer_ref rendered
  and rendered = Raises error | Null | Single new_layer | Array "new_layer option list"

subsection \<open>The manager\<close>

record LayerManager =
  prevLayers :: "layer_ref list"
  layers :: "layer_ref list"
  drewLayers :: bool
  oldContext :: "context_rec option"
  context_obj :: context_rec

text \<open>\<^verbatim>\<open>constructor({gl})\<close>; the empty object \<^verbatim>\<open>{}\<close> of \<^verbatim>\<open>oldContext\<close> is \<open>None\<close>.\<close>

definition new_LayerManager :: "gl \<Rightarrow> LayerManager" where
  "new_LayerManager g =
     \<lparr>prevLayers = [], layers = [], drewLayers = False, oldContext = None,
      context_obj = \<lparr>gl = g, viewport = None, viewportChanged = True, uniforms = No_uniforms\<rparr>\<rparr>"

text \<open>\<^verbatim>\<open>setContext({width, height, latitude, longitude, zoom, pitch, bearing, altitude})\<close>\<close>

definition setContext :: "camera \<Rightarrow> LayerManager \<Rightarrow> LayerManager" where
  "setContext p m =
     (let oldViewport = viewport (context_obj m);
          changed =
            (case oldViewport of
               None \<Rightarrow> True
             | Some v \<Rightarrow>
                 width p \<noteq> width (camera_of v) \<or>
                 height p \<noteq> height (camera_of v) \<or>
                 latitude p \<noteq> latitude (camera_of v) \<or>
                 longitude p \<noteq> longitude (camera_of v) \<or>
                 zoom p \<noteq> zoom (camera_of v) \<or>
                 bearing p \<noteq> bearing (camera_of v) \<or>
                 pitch p \<noteq> pitch (camera_of v) \<or>
                 altitude p \<noteq> altitude (camera_of v))
      in if changed \<or> viewport (context_obj m) = None then
           let m1 = m\<lparr>oldContext := Some (context_obj m)\<rparr>;
               vp = Viewport p 512
           in m1\<lparr>context_obj := (context_obj m1)
                  \<lparr>viewport := Some vp, viewportChanged := changed, uniforms := Uniforms_of vp\<rparr>\<rparr>
         else m)"

subsection \<open>State transfer\<close>

text \<open>\<^verbatim>\<open>_transferLayerState(oldLayer, newLayer)\<close>; \<open>Inl\<close> is the \<^verbatim>\<open>AssertionError\<close> of
  a failed sanity check, thrown before anything is written.\<close>

definition transferLayerState :: "layer_ref \<Rightarrow> layer_ref \<Rightarrow> world \<Rightarrow> error + world" where
  "transferLayerState oldLayer newLayer w =
     (case state (layer_at w oldLayer) of
        None \<Rightarrow> Inl (AssertionError ''deck.gl sanity check - Matching layer has no state'')
      | Some s \<Rightarrow>
          if oldLayer = newLayer
          then Inl (AssertionError ''deck.gl sanity check - Matching layer is same'')
          else
            let old_props = props (layer_at w oldLayer);
                w1 = set_layer newLayer (\<lambda>l. l\<lparr>state := Some s\<rparr>) w;
                w2 = set_state s (\<lambda>st. st\<lparr>back_layer := Some newLayer\<rparr>) w1;
                w3 = (case model (state_at w2 s) of
                        None \<Rightarrow> w2
                      | Some md \<Rightarrow>
                          set_state s
                            (\<lambda>st. st\<lparr>model := Some (md\<lparr>userData_layer := Some newLayer\<rparr>)\<rparr>) w2);
                w4 = set_layer newLayer (\<lambda>l. l\<lparr>oldProps := Some old_props\<rparr>) w3
            in Inr (set_layer oldLayer (\<lambda>l. l\<lparr>state := None\<rparr>) w4))"

subsection \<open>The lifecycle methods of a single layer\<close>

text \<open>The call \<^verbatim>\<open>layer.initializeLayer({...})\<close>: the outcome is the thrown error, if
  any, and the store after the call. A new state object is taken at \<open>next_state\<close>.\<close>

definition call_initializeLayer :: "layer_ref \<Rightarrow> world \<Rightarrow> error option \<times> world" where
  "call_initializeLayer r w =
     (let l = layer_at w r;
          w1 = record_call (Initialize r) w;
          w2 = (if initializeLayer_creates_state l then
                  let s = next_state w1;
                      st = \<lparr>back_layer = None,
                            model = (if initializeLayer_creates_model l
                                     then Some \<lparr>userData_layer = None\<rparr> else None)\<rparr>
                  in set_layer r (\<lambda>l. l\<lparr>state := Some s\<rparr>)
                       (w1\<lparr>state_at := (state_at w1)(s := st), next_state := Suc s\<rparr>)
                else w1)
      in (initializeLayer_raises l, w2))"

text \<open>\<^verbatim>\<open>_initializeNewLayer(layer)\<close>\<close>

definition initializeNewLayer :: "layer_ref \<Rightarrow> world \<Rightarrow> error option \<times> world" where
  "initializeNewLayer r w =
     (if state (layer_at w r) = None then
        let (error, w1) = call_initializeLayer r w;
            w2 = (case state (layer_at w1 r) of
                    None \<Rightarrow> w1
                  | Some s \<Rightarrow> set_state s (\<lambda>st. st\<lparr>back_layer := Some r\<rparr>) w1);
            w3 = (case state (layer_at w2 r) of
                    None \<Rightarrow> w2
                  | Some s \<Rightarrow>
                      (case model (state_at w2 s) of
                         None \<Rightarrow> w2
                       | Some md \<Rightarrow>
                           set_state s
                             (\<lambda>st. st\<lparr>model := Some (md\<lparr>userData_layer := Some r\<rparr>)\<rparr>) w2))
        in (error, w3)
      else (None, w))"

text \<open>\<^verbatim>\<open>_updateLayer(layer)\<close>; the props of a layer are an object, so \<^verbatim>\<open>if (oldProps)\<close>
  asks whether \<^verbatim>\<open>oldProps\<close> has been set.\<close>

definition updateLayer :: "layer_ref \<Rightarrow> world \<Rightarrow> error option \<times> world" where
  "updateLayer r w =
     (case oldProps (layer_at w r) of
        None \<Rightarrow> (None, w)
      | Some old_props \<Rightarrow> (updateLayer_raises (layer_at w r), record_call (Update r) w))"

text \<open>\<^verbatim>\<open>_finalizeLayer(layer)\<close>\<close>

definition finalizeLayer :: "layer_ref \<Rightarrow> world \<Rightarrow> error option \<times> world" where
  "finalizeLayer r w =
     (case state (layer_at w r) of
        None \<Rightarrow> (None, w)
      | Some s \<Rightarrow>
          (finalizeLayer_raises (layer_at w r),
           set_layer r (\<lambda>l. l\<lparr>state := None\<rparr>) (record_call (Finalize r) w)))"

subsection \<open>The three loops over a list of layers\<close>

text \<open>\<^verbatim>\<open>_initializeNewLayers(layers)\<close>: every layer is visited; the first error is kept.\<close>

fun initializeNewLayers :: "layer_ref list \<Rightarrow> error option \<Rightarrow> world \<Rightarrow> error option \<times> world" where
  "initializeNewLayers [] error w = (error, w)"
| "initializeNewLayers (r # rs) error w =
     (let (layerError, w1) = initializeNewLayer r w
      in initializeNewLayers rs (case error of None \<Rightarrow> layerError | Some e \<Rightarrow> Some e) w1)"

text \<open>\<^verbatim>\<open>_updateMatchedLayers(newLayers)\<close>: the loop body is
  \<^verbatim>\<open>error = error || this._updateLayer(layer)\<close>, and \<^verbatim>\<open>||\<close> does not evaluate its right
  operand once \<^verbatim>\<open>error\<close> is set.\<close>

fun updateMatchedLayers :: "layer_ref list \<Rightarrow> error option \<Rightarrow> world \<Rightarrow> error option \<times> world" where
  "updateMatchedLayers [] error w = (error, w)"
| "updateMatchedLayers (r # rs) error w =
     (case error of
        Some e \<Rightarrow> updateMatchedLayers rs (Some e) w
      | None \<Rightarrow> (let (e, w1) = updateLayer r w in updateMatchedLayers rs e w1))"

text \<open>\<^verbatim>\<open>_finalizeOldLayers(oldLayers)\<close>: the same loop body with \<^verbatim>\<open>_finalizeLayer\<close>.\<close>

fun finalizeOldLayers :: "layer_ref list \<Rightarrow> error option \<Rightarrow> world \<Rightarrow> error option \<times> world" where
  "finalizeOldLayers [] error w = (error, w)"
| "finalizeOldLayers (r # rs) error w =
     (case error of
        Some e \<Rightarrow> finalizeOldLayers rs (Some e) w
      | None \<Rightarrow> (let (e, w1) = finalizeLayer r w in finalizeOldLayers rs e w1))"

subsection \<open>Matching\<close>

text \<open>
  What a lookup \<^verbatim>\<open>oldLayerMap[id]\<close> can give: \<^verbatim>\<open>undefined\<close> (never written), \<^verbatim>\<open>null\<close>
  (written when a new layer has asked for the id), an old layer, or a property the
  object inherits. The lookup object is created as \<^verbatim>\<open>{}\<close>, so it has the prototype
  \<^verbatim>\<open>Object.prototype\<close>, and a lookup of one of the names below finds the property of the
  prototype: a function, or for \<^verbatim>\<open>__proto__\<close> the prototype itself. Each of them is
  truthy, is not a layer and has no property \<^verbatim>\<open>state\<close>.
\<close>

datatype slot = Undefined | Null_slot | Old layer_ref | Inherited

type_synonym old_map = "string \<Rightarrow> slot"

text \<open>The property names of \<^verbatim>\<open>Object.prototype\<close> (ECMAScript, with its annex B).\<close>

definition Object_prototype_keys :: "string list" where
  "Object_prototype_keys =
     [''constructor'', ''hasOwnProperty'', ''isPrototypeOf'', ''propertyIsEnumerable'',
      ''toLocaleString'', ''toString'', ''valueOf'', ''__proto__'', ''__defineGetter__'',
      ''__defineSetter__'', ''__lookupGetter__'', ''__lookupSetter__'']"

text \<open>The object \<^verbatim>\<open>{}\<close>.\<close>

definition empty_object :: old_map where
  "empty_object = (\<lambda>k. if k \<in> set Object_prototype_keys then Inherited else Undefined)"

text \<open>
  The assignment \<^verbatim>\<open>oldLayerMap[key] = null\<close>. It writes the property of the object
  itself, which from then on hides an inherited one. The key \<^verbatim>\<open>__proto__\<close> is the
  exception: as long as the object inherits it, the assignment calls the inherited
  setter, which takes the prototype away, so that no property is inherited any more
  (that \<^verbatim>\<open>__proto__\<close> is still inherited says that the prototype is still there).
\<close>

definition assign_null :: "string \<Rightarrow> old_map \<Rightarrow> old_map" where
  "assign_null key m =
     (if key = ''__proto__'' \<and> m ''__proto__'' = Inherited
      then (\<lambda>k. if m k = Inherited then Undefined else m k)
      else m(key := Null_slot))"

text \<open>The first loop of \<^verbatim>\<open>_matchLayers\<close>: an old layer is stored under its id unless
  the lookup of the id gives something truthy. So of several old layers with one id the
  first is kept, and an old layer whose id is an inherited name is not stored at all
  (both are only logged).\<close>

fun create_oldLayerMap :: "layer_ref list \<Rightarrow> world \<Rightarrow> old_map \<Rightarrow> old_map" where
  "create_oldLayerMap [] w oldLayerMap = oldLayerMap"
| "create_oldLayerMap (oldLayer # rest) w oldLayerMap =
     (case oldLayerMap (layer_id (layer_at w oldLayer)) of
        Old other \<Rightarrow> create_oldLayerMap rest w oldLayerMap
      | Inherited \<Rightarrow> create_oldLayerMap rest w oldLayerMap
      | _ \<Rightarrow> create_oldLayerMap rest w
               (oldLayerMap(layer_id (layer_at w oldLayer) := Old oldLayer)))"

text \<open>What \<^verbatim>\<open>_matchSublayers\<close> reads and writes: the lookup object, the array
  \<^verbatim>\<open>generatedLayers\<close> (both shared by all recursive calls) and the store.\<close>

record matching =
  oldLayerMap :: old_map
  generatedLayers :: "layer_ref list"
  store :: world

text \<open>
  \<^verbatim>\<open>_matchSublayers({newLayers, oldLayerMap, generatedLayers})\<close>. \<open>matchSublayers\<close> is
  the loop over the array, with the \<^verbatim>\<open>null\<close> entries skipped as the \<^verbatim>\<open>filter\<close> does, and
  \<open>matchLayer\<close> is one run of the loop body: its first component is the error the \<^verbatim>\<open>catch\<close>
  block receives, if any. The value the recursive call returns is dropped, as in the
  source. When the lookup gives an inherited property, \<^verbatim>\<open>if (oldLayer)\<close> holds and
  \<^verbatim>\<open>_transferLayerState\<close> is called with it: it reads no \<^verbatim>\<open>state\<close> from it, and its first
  \<^verbatim>\<open>assert\<close> throws.
\<close>

function matchSublayers :: "new_layer option list \<Rightarrow> matching \<Rightarrow> error option \<times> matching"
  and matchLayer :: "new_layer \<Rightarrow> matching \<Rightarrow> error option \<times> matching" where
  "matchSublayers [] mt = (None, mt)"
| "matchSublayers (None # newLayers) mt = matchSublayers newLayers mt"
| "matchSublayers (Some newLayer # newLayers) mt =
     (let (err, mt1) = matchLayer newLayer mt;
          (error, mt2) = matchSublayers newLayers mt1
      in (case err of None \<Rightarrow> error | Some e \<Rightarrow> Some e, mt2))"
| "matchLayer (Layer r sublayers) mt =
     (let w0 = set_layer r (\<lambda>l. l\<lparr>has_context := True\<rparr>) (store mt);
          key = layer_id (layer_at w0 r);
          oldLayer = oldLayerMap mt key;
          mt1 = mt\<lparr>oldLayerMap := assign_null key (oldLayerMap mt)\<rparr>
      in case (case oldLayer of
                 Old ol \<Rightarrow> transferLayerState ol r w0
               | Inherited \<Rightarrow>
                   Inl (AssertionError ''deck.gl sanity check - Matching layer has no state'')
               | _ \<Rightarrow> Inr w0) of
           Inl err \<Rightarrow> (Some err, mt1\<lparr>store := w0\<rparr>)
         | Inr w1 \<Rightarrow>
             (let (ignored, w2) = initializeNewLayer r w1;
                  mt2 = mt1\<lparr>generatedLayers := generatedLayers mt1 @ [r],
                            store := record_call (Render r) w2\<rparr>
              in case sublayers of
                   Raises err \<Rightarrow> (Some err, mt2)
                 | Null \<Rightarrow> (None, mt2)
                 | Single sublayer \<Rightarrow> (None, snd (matchSublayers [Some sublayer] mt2))
                 | Array subs \<Rightarrow> (None, snd (matchSublayers subs mt2))))"
  by pat_completeness auto
termination
  by (relation "measure (\<lambda>x. case x of
         Inl (ts, mt) \<Rightarrow> 2 * size_list (size_option size) ts
       | Inr (t, mt) \<Rightarrow> 2 * size t + 1)") auto

text \<open>\<^verbatim>\<open>_matchLayers(oldLayers, newLayers)\<close>\<close>

definition matchLayers ::
    "layer_ref list \<Rightarrow> new_layer option list \<Rightarrow> world \<Rightarrow> error option \<times> layer_ref list \<times> world" where
  "matchLayers oldLayers newLayers w =
     (let (error, mt) =
            matchSublayers newLayers
              \<lparr>oldLayerMap = create_oldLayerMap oldLayers w empty_object,
               generatedLayers = [], store = w\<rparr>
      in (error, generatedLayers mt, store mt))"

text \<open>\<^verbatim>\<open>a || b\<close> on two values that are \<^verbatim>\<open>null\<close> or an error object.\<close>

definition or_else :: "error option \<Rightarrow> error option \<Rightarrow> error option" where
  "or_else a b = (case a of None \<Rightarrow> b | Some e \<Rightarrow> Some e)"

text \<open>\<^verbatim>\<open>_updateLayers({oldLayers, newLayers})\<close>\<close>

definition updateLayers_internal ::
    "layer_ref list \<Rightarrow> new_layer option list \<Rightarrow> world \<Rightarrow> error option \<times> layer_ref list \<times> world" where
  "updateLayers_internal oldLayers newLayers w =
     (let (error, generated, w1) = matchLayers oldLayers newLayers w;
          (error2, w2) = finalizeOldLayers oldLayers None w1;
          (error3, w3) = updateMatchedLayers generated None w2;
          (error4, w4) = initializeNewLayers generated None w3;
          firstError = or_else error (or_else error2 (or_else error3 error4))
      in (firstError, generated, w4))"

text \<open>The layer object of a new layer.\<close>

fun ref_of :: "new_layer \<Rightarrow> layer_ref" where
  "ref_of (Layer r sublayers) = r"

text \<open>
  \<^verbatim>\<open>updateLayers({newLayers})\<close>. The first component of the result is the error the
  method throws, after the store and the manager have been changed as the other two
  components say; \<open>None\<close> means that it returns.
\<close>

definition updateLayers ::
    "new_layer option list \<Rightarrow> LayerManager \<Rightarrow> world \<Rightarrow> error option \<times> LayerManager \<times> world" where
  "updateLayers newLayers m w =
     (let newLayers1 = filter (\<lambda>newLayer. newLayer \<noteq> None) newLayers;
          w1 = fold (\<lambda>newLayer. case newLayer of
                       None \<Rightarrow> (\<lambda>w. w)
                     | Some t \<Rightarrow> set_layer (ref_of t) (\<lambda>l. l\<lparr>has_context := True\<rparr>))
                 newLayers1 w;
          m1 = m\<lparr>prevLayers := layers m\<rparr>;
          (error, generated, w2) = updateLayers_internal (prevLayers m1) newLayers1 w1
      in (error, m1\<lparr>layers := generated\<rparr>, w2))"

subsection \<open>Redraw\<close>

text \<open>Modelled from the spec: \<^verbatim>\<open>getNeedsRedraw({clearRedrawFlags})\<close> of the class
  \<^verbatim>\<open>Layer\<close> reports the layer's flag and, when asked to, resets it.\<close>

definition getNeedsRedraw :: "bool \<Rightarrow> layer_ref \<Rightarrow> world \<Rightarrow> bool \<times> world" where
  "getNeedsRedraw clearRedrawFlags r w =
     (needsRedraw_flag (layer_at w r),
      if clearRedrawFlags then set_layer r (\<lambda>l. l\<lparr>needsRedraw_flag := False\<rparr>) w else w)"

text \<open>The loop of \<^verbatim>\<open>needsRedraw\<close>: \<^verbatim>\<open>redraw = redraw || layer.getNeedsRedraw(...)\<close>
  asks a layer only while \<^verbatim>\<open>redraw\<close> is still false.\<close>

fun needsRedraw_loop ::
    "bool \<Rightarrow> layer_ref list \<Rightarrow> bool \<Rightarrow> bool \<Rightarrow> world \<Rightarrow> bool \<times> bool \<times> world" where
  "needsRedraw_loop clearRedrawFlags [] redraw drew w = (redraw, drew, w)"
| "needsRedraw_loop clearRedrawFlags (r # rs) redraw drew w =
     (if redraw then needsRedraw_loop clearRedrawFlags rs True True w
      else (let (flag, w1) = getNeedsRedraw clearRedrawFlags r w
            in needsRedraw_loop clearRedrawFlags rs flag True w1))"

text \<open>\<^verbatim>\<open>needsRedraw({clearRedrawFlags = false} = {})\<close>: the result, and the manager and the
  store after the call.\<close>

definition needsRedraw :: "bool \<Rightarrow> LayerManager \<Rightarrow> world \<Rightarrow> bool \<times> LayerManager \<times> world" where
  "needsRedraw clearRedrawFlags m w =
     (let redraw0 = (if layers m = [] \<and> drewLayers m then True else False);
          redraw1 = (if viewportChanged (context_obj m) then True else redraw0);
          (redraw, drew, w1) = needsRedraw_loop clearRedrawFlags (layers m) redraw1 False w
      in (redraw, m\<lparr>drewLayers := drew\<rparr>, w1))"

section \<open>What the claims speak about\<close>

subsection \<open>The depth-first flattening of a new forest\<close>

text \<open>
  The flattening as the specification words it: depth first and left to right, a layer
  before the children its \<^verbatim>\<open>renderLayers\<close> produced, these before any later sibling.
  A layer whose \<^verbatim>\<open>renderLayers\<close> throws has produced no children.
\<close>

function flatten_forest :: "new_layer option list \<Rightarrow> layer_ref list"
  and flatten_layer :: "new_layer \<Rightarrow> layer_ref list" where
  "flatten_forest [] = []"
| "flatten_forest (None # ts) = flatten_forest ts"
| "flatten_forest (Some t # ts) = flatten_layer t @ flatten_forest ts"
| "flatten_layer (Layer r sublayers) =
     r # (case sublayers of
            Raises err \<Rightarrow> []
          | Null \<Rightarrow> []
          | Single t \<Rightarrow> flatten_layer t
          | Array ts \<Rightarrow> flatten_forest ts)"
  by pat_completeness auto
termination
  by (relation "measure (\<lambda>x. case x of
         Inl ts \<Rightarrow> 2 * size_list (size_option size) ts
       | Inr t \<Rightarrow> 2 * size t + 1)") auto

subsection \<open>Order of the calls and ownership of state objects\<close>

definition is_Initialize :: "event \<Rightarrow> bool" where
  "is_Initialize e = (case e of Initialize r \<Rightarrow> True | _ \<Rightarrow> False)"

definition is_Update :: "event \<Rightarrow> bool" where
  "is_Update e = (case e of Update r \<Rightarrow> True | _ \<Rightarrow> False)"

definition is_Finalize :: "event \<Rightarrow> bool" where
  "is_Finalize e = (case e of Finalize r \<Rightarrow> True | _ \<Rightarrow> False)"

definition is_Render :: "event \<Rightarrow> bool" where
  "is_Render e = (case e of Render r \<Rightarrow> True | _ \<Rightarrow> False)"

text \<open>\<open>all_before P Q es\<close>: in \<open>es\<close>, no call of kind \<open>P\<close> comes after a call of kind
  \<open>Q\<close>, that is, every \<open>P\<close> call is made before any \<open>Q\<close> call.\<close>

fun all_before :: "(event \<Rightarrow> bool) \<Rightarrow> (event \<Rightarrow> bool) \<Rightarrow> event list \<Rightarrow> bool" where
  "all_before P Q [] = True"
| "all_before P Q (e # es) = ((if Q e then \<not> list_ex P es else True) \<and> all_before P Q es)"

text \<open>The calls a step has added to the ones made before it.\<close>

definition calls_since :: "world \<Rightarrow> world \<Rightarrow> event list" where
  "calls_since w w1 = drop (length (calls w)) (calls w1)"

text \<open>No state object is held by two layer objects.\<close>

definition single_owner :: "world \<Rightarrow> bool" where
  "single_owner w \<longleftrightarrow>
     (\<forall>a b s. state (layer_at w a) = Some s \<and> state (layer_at w b) = Some s \<longrightarrow> a = b)"

text \<open>\<open>owners_ok\<close>: no state object is held by two layer objects, and every state
  object a layer holds has been created before (it lies below \<open>next_state\<close>, where
  the next \<^verbatim>\<open>initializeLayer\<close> takes its new state object).\<close>

definition owners_ok :: "world \<Rightarrow> bool" where
  "owners_ok w \<longleftrightarrow>
     single_owner w \<and> (\<forall>x s. state (layer_at w x) = Some s \<longrightarrow> s < next_state w)"

subsection \<open>The loop body of the matching pass in parts\<close>

text \<open>
  The statements of one run of the loop body of \<^verbatim>\<open>_matchSublayers\<close>, named for the
  proofs: \<open>with_context\<close> is the assignment of the context, \<open>transfer_result\<close> the
  lookup and the state transfer (the store after it, or the error of a sanity check),
  \<open>skipped\<close> what is left when the sanity check has failed, and \<open>entered\<close> what
  the recursion on the sublayers starts from. \<open>set_contexts\<close> is the first loop of
  \<^verbatim>\<open>updateLayers\<close>.
\<close>

definition with_context :: "layer_ref \<Rightarrow> world \<Rightarrow> world" where
  "with_context r w = set_layer r (\<lambda>l. l\<lparr>has_context := True\<rparr>) w"

definition transfer_result :: "layer_ref \<Rightarrow> matching \<Rightarrow> error + world" where
  "transfer_result r mt =
     (case oldLayerMap mt (layer_id (layer_at (store mt) r)) of
        Old ol \<Rightarrow> transferLayerState ol r (with_context r (store mt))
      | Inherited \<Rightarrow>
          Inl (AssertionError ''deck.gl sanity check - Matching layer has no state'')
      | _ \<Rightarrow> Inr (with_context r (store mt)))"

definition skipped :: "layer_ref \<Rightarrow> matching \<Rightarrow> matching" where
  "skipped r mt =
     mt\<lparr>oldLayerMap := assign_null (layer_id (layer_at (store mt) r)) (oldLayerMap mt),
        store := with_context r (store mt)\<rparr>"

definition entered :: "layer_ref \<Rightarrow> world \<Rightarrow> matching \<Rightarrow> matching" where
  "entered r w1 mt =
     mt\<lparr>oldLayerMap := assign_null (layer_id (layer_at (store mt) r)) (oldLayerMap mt),
        generatedLayers := generatedLayers mt @ [r],
        store := record_call (Render r) (snd (initializeNewLayer r w1))\<rparr>"

definition set_contexts :: "new_layer option list \<Rightarrow> world \<Rightarrow> world" where
  "set_contexts ts w = fold (\<lambda>newLayer. case newLayer of None \<Rightarrow> (\<lambda>w. w)
       | Some t \<Rightarrow> set_layer (ref_of t) (\<lambda>l. l\<lparr>has_context := True\<rparr>)) ts w"

subsection \<open>What the matching pass maintains\<close>

text \<open>\<open>same_static w w1\<close>: from \<open>w\<close> to \<open>w1\<close> the layer objects differ at most in
  their state reference, their old props and their context.\<close>

definition same_static :: "world \<Rightarrow> world \<Rightarrow> bool" where
  "same_static w w1 \<longleftrightarrow>
     (\<forall>x. \<exists>s p c. layer_at w1 x = (layer_at w x)\<lparr>state := s, oldProps := p, has_context := c\<rparr>)"

text \<open>The calls the matching pass makes.\<close>

definition match_event :: "event \<Rightarrow> bool" where
  "match_event e \<longleftrightarrow> is_Initialize e \<or> is_Render e"

text \<open>\<open>match_ok idf N mt\<close>: the ids of the layer objects are given by \<open>idf\<close>, every
  old layer still in the lookup object stands under its own id, holds state and is not
  one of the layer objects \<open>N\<close> of the new frame, and the lookup of the id of a layer
  object of the new frame does not give an inherited property.\<close>

definition match_ok :: "(layer_ref \<Rightarrow> string) \<Rightarrow> layer_ref set \<Rightarrow> matching \<Rightarrow> bool" where
  "match_ok idf N mt \<longleftrightarrow>
     (\<forall>x. layer_id (layer_at (store mt) x) = idf x) \<and>
     (\<forall>k ol. oldLayerMap mt k = Old ol \<longrightarrow>
        idf ol = k \<and> state (layer_at (store mt) ol) \<noteq> None \<and> ol \<notin> N) \<and>
     (\<forall>x \<in> N. oldLayerMap mt (idf x) \<noteq> Inherited)"

text \<open>\<open>old_inv idf old mt\<close>: every old layer is either still in the lookup object and
  holds state, or its slot has been consumed and it holds none.\<close>

definition old_inv :: "(layer_ref \<Rightarrow> string) \<Rightarrow> layer_ref list \<Rightarrow> matching \<Rightarrow> bool" where
  "old_inv idf old mt \<longleftrightarrow>
     (\<forall>ol \<in> set old.
        (oldLayerMap mt (idf ol) = Old ol \<and> state (layer_at (store mt) ol) \<noteq> None) \<or>
        (oldLayerMap mt (idf ol) = Null_slot \<and> state (layer_at (store mt) ol) = None))"

text \<open>A layer that holds state and old props: it has been matched.\<close>

definition good :: "world \<Rightarrow> layer_ref \<Rightarrow> bool" where
  "good w x \<longleftrightarrow> state (layer_at w x) \<noteq> None \<and> oldProps (layer_at w x) \<noteq> None"

text \<open>
  \<open>lineage idf k ol s mt\<close> follows the state object \<open>s\<close> of the old layer \<open>ol\<close>
  with the id \<open>k\<close> through a matching pass in which other sanity checks may fail.
  Either no layer with the id \<open>k\<close> has been generated yet, and \<open>ol\<close> is still in the
  lookup object and holds \<open>s\<close>; or the slot has been consumed, \<open>ol\<close> holds no state,
  and the first generated layer with the id \<open>k\<close> holds \<open>s\<close>.
\<close>

definition lineage ::
    "(layer_ref \<Rightarrow> string) \<Rightarrow> string \<Rightarrow> layer_ref \<Rightarrow> state_ref \<Rightarrow> matching \<Rightarrow> bool" where
  "lineage idf k ol s mt \<longleftrightarrow>
     (\<forall>x. layer_id (layer_at (store mt) x) = idf x) \<and>
     (\<forall>j x. oldLayerMap mt j = Old x \<longrightarrow> idf x = j) \<and>
     idf ol = k \<and> ol \<notin> set (generatedLayers mt) \<and>
     ((oldLayerMap mt k = Old ol \<and> state (layer_at (store mt) ol) = Some s \<and>
         k \<notin> idf ` set (generatedLayers mt)) \<or>
      (oldLayerMap mt k = Null_slot \<and> state (layer_at (store mt) ol) = None \<and>
         (\<exists>r. find (\<lambda>x. idf x = k) (generatedLayers mt) = Some r \<and>
              state (layer_at (store mt) r) = Some s)))"

subsection \<open>Concrete frames\<close>

text \<open>A layer object as the application creates it for a frame: no state, no old props,
  no context yet; its methods succeed, and \<^verbatim>\<open>initializeLayer\<close> creates the state.\<close>

definition new_Layer :: "string \<Rightarrow> layer" where
  "new_Layer k =
     \<lparr>layer_id = k, props = 0, oldProps = None, state = None, has_context = False,
      needsRedraw_flag = False, initializeLayer_creates_state = True,
      initializeLayer_creates_model = True, initializeLayer_raises = None,
      updateLayer_raises = None, finalizeLayer_raises = None\<rparr>"

text \<open>The store that holds the given layer objects at the references \<open>0, 1, ...\<close>, no
  state object, and no call made so far.\<close>

definition store_of :: "layer list \<Rightarrow> world" where
  "store_of ls =
     \<lparr>layer_at = (\<lambda>r. if r < length ls then ls ! r else new_Layer []),
      state_at = (\<lambda>s. \<lparr>back_layer = None, model = None\<rparr>),
      next_state = 0, calls = []\<rparr>"

definition a_camera :: camera where
  "a_camera =
     \<lparr>width = 800, height = 600, latitude = 37, longitude = -122, zoom = 11,
      pitch = 0, bearing = 0, altitude = 3 / 2\<rparr>"

text \<open>A manager that has been given its context.\<close>

definition manager0 :: LayerManager where
  "manager0 = setContext a_camera (new_LayerManager 0)"

text \<open>Two frames in a row: the result of the second \<^verbatim>\<open>updateLayers\<close> together with the
  store as it was when the second frame started.\<close>

definition two_frames ::
    "world \<Rightarrow> new_layer option list \<Rightarrow> new_layer option list \<Rightarrow>
       world \<times> error option \<times> LayerManager \<times> world" where
  "two_frames w frame1 frame2 =
     (let (error1, m1, w1) = updateLayers frame1 manager0 w
      in (w1, updateLayers frame2 m1 w1))"

text \<open>Frame 1 shows the layers x, y and z; frame 2 shows them again, and the
  \<^verbatim>\<open>updateLayer\<close> of the new x throws.\<close>

definition store_update_raises :: world where
  "store_update_raises =
     store_of [new_Layer ''x'', new_Layer ''y'', new_Layer ''z'',
               (new_Layer ''x'')\<lparr>updateLayer_raises := Some (LayerError ''update of x'')\<rparr>,
               new_Layer ''y'', new_Layer ''z'']"

definition frames_update_raises :: "world \<times> error option \<times> LayerManager \<times> world" where
  "frames_update_raises =
     two_frames store_update_raises
       [Some (Layer 0 Null), Some (Layer 1 Null), Some (Layer 2 Null)]
       [Some (Layer 3 Null), Some (Layer 4 Null), Some (Layer 5 Null)]"

text \<open>Frame 1 shows the layers a and d; frame 2 shows a again, drops d and adds b.\<close>

definition store_add_and_drop :: world where
  "store_add_and_drop = store_of [new_Layer ''a'', new_Layer ''d'', new_Layer ''a'', new_Layer ''b'']"

definition frames_add_and_drop :: "world \<times> error option \<times> LayerManager \<times> world" where
  "frames_add_and_drop =
     two_frames store_add_and_drop
       [Some (Layer 0 Null), Some (Layer 1 Null)]
       [Some (Layer 2 Null), Some (Layer 3 Null)]"

text \<open>Frame 1 shows the layers a and b; frame 2 shows nothing, and the
  \<^verbatim>\<open>finalizeLayer\<close> of a throws.\<close>

definition store_finalize_raises :: world where
  "store_finalize_raises =
     store_of [(new_Layer ''a'')\<lparr>finalizeLayer_raises := Some (LayerError ''finalize of a'')\<rparr>,
               new_Layer ''b'']"

definition frames_finalize_raises :: "world \<times> error option \<times> LayerManager \<times> world" where
  "frames_finalize_raises =
     two_frames store_finalize_raises [Some (Layer 0 Null), Some (Layer 1 Null)] []"

text \<open>Frame 1 shows a layer a whose \<^verbatim>\<open>initializeLayer\<close> throws before it has created
  the state; frame 2 shows a again, followed by a new layer b.\<close>

definition store_init_raises :: world where
  "store_init_raises =
     store_of [(new_Layer ''a'')\<lparr>initializeLayer_creates_state := False,
                                 initializeLayer_raises := Some (LayerError ''initialize of a'')\<rparr>,
               new_Layer ''a'', new_Layer ''b'']"

definition frames_init_raises :: "world \<times> error option \<times> LayerManager \<times> world" where
  "frames_init_raises =
     two_frames store_init_raises [Some (Layer 0 Null)] [Some (Layer 1 Null), Some (Layer 2 Null)]"

text \<open>Frame 1 shows a parent p that renders one child c; frame 2 shows the same forest
  with new layer objects (the parent now returns its child in an array with a hole).\<close>

definition store_resubmitted :: world where
  "store_resubmitted = store_of [new_Layer ''p'', new_Layer ''c'', new_Layer ''p'', new_Layer ''c'']"

definition resubmitted_frame1 :: "new_layer option list" where
  "resubmitted_frame1 = [Some (Layer 0 (Single (Layer 1 Null)))]"

definition resubmitted_frame2 :: "new_layer option list" where
  "resubmitted_frame2 = [Some (Layer 2 (Array [Some (Layer 3 Null), None]))]"

text \<open>Frame 1 shows the layers a and b; frame 2 is given the very same two layer
  objects again.\<close>

definition store_same_objects :: world where
  "store_same_objects = store_of [new_Layer ''a'', new_Layer ''b'']"

definition frames_same_objects :: "world \<times> error option \<times> LayerManager \<times> world" where
  "frames_same_objects =
     two_frames store_same_objects
       [Some (Layer 0 Null), Some (Layer 1 Null)]
       [Some (Layer 0 Null), Some (Layer 1 Null)]"

text \<open>Frame 1 shows the layers a and c, and the \<^verbatim>\<open>initializeLayer\<close> of c throws before it
  has created the state, so that c is live without state; frame 2 shows a and c again
  with new layer objects.\<close>

definition store_stateless_sibling :: world where
  "store_stateless_sibling =
     store_of [new_Layer ''a'',
               (new_Layer ''c'')\<lparr>initializeLayer_creates_state := False,
                                 initializeLayer_raises := Some (LayerError ''initialize of c'')\<rparr>,
               new_Layer ''a'', new_Layer ''c'']"

definition stateless_sibling_frame1 :: "new_layer option list" where
  "stateless_sibling_frame1 = [Some (Layer 0 Null), Some (Layer 1 Null)]"

definition stateless_sibling_frame2 :: "new_layer option list" where
  "stateless_sibling_frame2 = [Some (Layer 2 Null), Some (Layer 3 Null)]"

text \<open>The manager and the store after a first frame on the manager \<open>manager0\<close>.\<close>

definition after_first_frame :: "world \<Rightarrow> new_layer option list \<Rightarrow> LayerManager \<times> world" where
  "after_first_frame w frame1 = snd (updateLayers frame1 manager0 w)"

text \<open>What \<^verbatim>\<open>_matchSublayers\<close> starts from in the second frame of \<open>frames_init_raises\<close>:
  the lookup object built from the live forest, in which the old layer a has no
  state.\<close>

definition init_raises_matching :: matching where
  "init_raises_matching =
     (let (m1, w1) = after_first_frame store_init_raises [Some (Layer 0 Null)]
      in \<lparr>oldLayerMap = create_oldLayerMap (layers m1) w1 empty_object,
          generatedLayers = [], store = w1\<rparr>)"

text \<open>One layer is shown and checked for redraw; then the forest becomes empty and is
  checked twice. The result holds the manager before the two checks and their answers.\<close>

definition redraw_after_empty :: "LayerManager \<times> bool \<times> bool" where
  "redraw_after_empty =
     (let (error1, m1, w1) = updateLayers [Some (Layer 0 Null)] manager0 (store_of [new_Layer ''a'']);
          (shown, m2, w2) = needsRedraw True m1 w1;
          (error2, m3, w3) = updateLayers [] m2 w2;
          (first, m4, w4) = needsRedraw True m3 w3;
          (second, m5, w5) = needsRedraw True m4 w4
      in (m3, first, second))"

section \<open>Properties\<close>

text \<open>The equations that run the model on a concrete frame.\<close>

lemmas run_defs = two_frames_def manager0_def updateLayers_def updateLayers_internal_def
  matchLayers_def store_of_def new_Layer_def new_LayerManager_def setContext_def Let_def
  set_layer_def set_state_def record_call_def initializeNewLayer_def call_initializeLayer_def
  transferLayerState_def updateLayer_def finalizeLayer_def or_else_def a_camera_def
  calls_since_def after_first_frame_def matchSublayers.simps matchLayer.simps
  empty_object_def Object_prototype_keys_def assign_null_def

subsection \<open>The viewport context\<close>

lemma setContext_same: "setContext p (setContext p m) = setContext p m"
  by (cases "viewport (context_obj m)") (auto simp: setContext_def Let_def)

lemma setContext_keeps_flag:
  "viewportChanged (context_obj m) \<Longrightarrow> viewportChanged (context_obj (setContext p m))"
  by (auto simp: setContext_def Let_def split: option.splits)

lemma fold_setContext_flag:
  "viewportChanged (context_obj m) \<Longrightarrow> viewportChanged (context_obj (fold setContext ps m))"
  by (induction ps arbitrary: m) (auto simp: setContext_keeps_flag)

text \<open>
  C3, as the code has it. After every sequence of \<^verbatim>\<open>setContext\<close> calls on a new manager
  the flag \<^verbatim>\<open>viewportChanged\<close> is true: the constructor sets it, \<^verbatim>\<open>setContext\<close> writes
  it only in the branch where it is true, and a call whose parameters all equal those
  of the call before leaves the manager, its context and the flag included, as it is.
\<close>

theorem viewportChanged_stays_true:
  "viewportChanged (context_obj (fold setContext ps (new_LayerManager g))) \<and>
   setContext p (setContext p m) = setContext p m"
  using fold_setContext_flag [of "new_LayerManager g" ps] setContext_same [of p m]
  by (simp add: new_LayerManager_def)

theorem viewportChanged_stays_true_witness:
  "viewportChanged (context_obj (fold setContext [a_camera, a_camera] (new_LayerManager 0))) \<and>
   setContext a_camera (setContext a_camera (new_LayerManager 0)) =
     setContext a_camera (new_LayerManager 0)"
  by (rule viewportChanged_stays_true)

text \<open>
  C3 as stated fails: the second of two \<^verbatim>\<open>setContext\<close> calls with the same parameters
  finds a viewport with exactly these parameters, and \<^verbatim>\<open>viewportChanged\<close> is true after
  it, not false.
\<close>

theorem viewportChanged_not_cleared:
  "viewport (context_obj (setContext a_camera (new_LayerManager 0))) = Some (Viewport a_camera 512) \<and>
   viewportChanged (context_obj (setContext a_camera (setContext a_camera (new_LayerManager 0))))"
  by (simp add: setContext_def new_LayerManager_def Let_def)

subsection \<open>Redraw\<close>

text \<open>
  C4, as the code has it. When the forest is empty and the check before saw layers, the
  first \<^verbatim>\<open>needsRedraw\<close> answers true and clears \<^verbatim>\<open>drewLayers\<close>; the answer of the next
  check is the flag \<^verbatim>\<open>viewportChanged\<close> of the context, whatever else holds: false only
  if that flag is false.
\<close>

theorem needsRedraw_after_empty:
  assumes "layers m = []" and "drewLayers m"
  shows "(let (first, m1, w1) = needsRedraw c1 m w;
              (second, m2, w2) = needsRedraw c2 m1 w1
          in first \<and> \<not> drewLayers m1 \<and> second = viewportChanged (context_obj m))"
  using assms by (simp add: needsRedraw_def)

lemma redraw_after_empty_value:
  "redraw_after_empty =
     (\<lparr>prevLayers = [0], layers = [], drewLayers = True,
       oldContext = Some (context_obj (new_LayerManager 0)),
       context_obj = context_obj manager0\<rparr>, True, True)"
  by (simp add: redraw_after_empty_def needsRedraw_def getNeedsRedraw_def run_defs)

text \<open>The theorem for C4 at the manager of \<open>redraw_after_empty\<close>, whose forest has just
  become empty.\<close>

theorem needsRedraw_after_empty_witness:
  "(let m = fst redraw_after_empty in
     layers m = [] \<and> drewLayers m \<and>
     (let (first, m1, w1) = needsRedraw True m (store_of []);
          (second, m2, w2) = needsRedraw True m1 w1
      in first \<and> \<not> drewLayers m1 \<and> second = viewportChanged (context_obj m)))"
proof -
  have a: "layers (fst redraw_after_empty) = []"
    by (simp add: redraw_after_empty_value)
  have b: "drewLayers (fst redraw_after_empty)"
    by (simp add: redraw_after_empty_value)
  show ?thesis
    using a b needsRedraw_after_empty [OF a b, of True "store_of []" True]
    by (simp add: Let_def)
qed

text \<open>
  C4 as stated fails: a manager is created and given its context, shows one layer, is
  checked, and is then given the empty forest. Both checks that follow answer true, the
  second one too, because \<^verbatim>\<open>viewportChanged\<close> is still true.
\<close>

theorem needsRedraw_true_twice:
  "(let (m, first, second) = redraw_after_empty
    in layers m = [] \<and> drewLayers m \<and> first \<and> second)"
  by (simp add: redraw_after_empty_value)

subsection \<open>Single layers\<close>

text \<open>
  C10. A layer that holds state when \<^verbatim>\<open>_finalizeLayer\<close> is called has its
  \<^verbatim>\<open>finalizeLayer\<close> called once, and its state reference is cleared afterwards, whether
  the call has thrown (the error is then the result) or not.
\<close>

theorem finalizeLayer_clears_state:
  assumes "state (layer_at w r) = Some s"
  shows "fst (finalizeLayer r w) = finalizeLayer_raises (layer_at w r) \<and>
    state (layer_at (snd (finalizeLayer r w)) r) = None \<and>
    calls (snd (finalizeLayer r w)) = calls w @ [Finalize r]"
  using assms by (simp add: finalizeLayer_def set_layer_def record_call_def)

lemma frames_finalize_raises_fst:
  "state (layer_at (fst frames_finalize_raises) 0) = Some 0"
  "finalizeLayer_raises (layer_at (fst frames_finalize_raises) 0) =
     Some (LayerError ''finalize of a'')"
  by (simp_all add: frames_finalize_raises_def store_finalize_raises_def run_defs)

text \<open>The theorem for C10 at a live layer whose \<^verbatim>\<open>finalizeLayer\<close> throws.\<close>

theorem finalizeLayer_clears_state_witness:
  "(let w = fst frames_finalize_raises in
     state (layer_at w 0) = Some 0 \<and>
     fst (finalizeLayer 0 w) = Some (LayerError ''finalize of a'') \<and>
     state (layer_at (snd (finalizeLayer 0 w)) 0) = None \<and>
     calls (snd (finalizeLayer 0 w)) = calls w @ [Finalize 0])"
  using frames_finalize_raises_fst
    finalizeLayer_clears_state [OF frames_finalize_raises_fst(1)]
  by (simp add: Let_def)

text \<open>
  The state transfer on its own: when \<^verbatim>\<open>_transferLayerState\<close> passes its sanity
  checks, the new layer holds the very state object the old layer held, the old layer
  holds none, and if no state object had two owners before, none has two owners after.
\<close>

theorem transferLayerState_moves_state:
  assumes "transferLayerState oldLayer newLayer w = Inr w1"
  shows "state (layer_at w oldLayer) \<noteq> None \<and>
    state (layer_at w1 newLayer) = state (layer_at w oldLayer) \<and>
    state (layer_at w1 oldLayer) = None \<and>
    (single_owner w \<longrightarrow> single_owner w1)"
  using assms
  by (auto simp: transferLayerState_def set_layer_def set_state_def single_owner_def Let_def
      split: option.splits if_splits)

lemma add_and_drop_states:
  "state (layer_at (fst frames_add_and_drop) a) =
     (if a = 0 then Some 0 else if a = 1 then Some 1 else None)"
  by (simp add: frames_add_and_drop_def store_add_and_drop_def run_defs nth_Cons
      split: nat.splits)

lemma add_and_drop_single_owner: "single_owner (fst frames_add_and_drop)"
  unfolding single_owner_def by (auto simp: add_and_drop_states split: if_splits)

text \<open>The state transfer at the store after frame 1 of \<open>frames_add_and_drop\<close>: the
  state of the old layer a (reference 0) is moved to the new layer a (reference 2).\<close>

theorem transferLayerState_moves_state_witness:
  "(let w = fst frames_add_and_drop; w1 = projr (transferLayerState 0 2 w) in
     transferLayerState 0 2 w = Inr w1 \<and> state (layer_at w 0) = Some 0 \<and>
     state (layer_at w1 2) = Some 0 \<and> state (layer_at w1 0) = None \<and>
     single_owner w \<and> single_owner w1)"
proof -
  let ?w = "fst frames_add_and_drop"
  have t: "transferLayerState 0 2 ?w = Inr (projr (transferLayerState 0 2 ?w))"
    by (simp add: transferLayerState_def add_and_drop_states Let_def)
  show ?thesis
    using t transferLayerState_moves_state [OF t] add_and_drop_single_owner
    by (simp add: Let_def add_and_drop_states)
qed

subsection \<open>The loops that stop calling after the first error\<close>

text \<open>
  C1 at a concrete frame: x, y and z are matched, the \<^verbatim>\<open>updateLayer\<close> of x throws. The
  new y and z (references 4 and 5) have their old props, so they are matched layers, but
  the only update call made is the one of x; the error of x is what \<^verbatim>\<open>updateLayers\<close>
  throws.
\<close>

theorem update_skipped_after_raise:
  "(let (w1, error, m, w2) = frames_update_raises
    in (error, layers m, map (\<lambda>r. oldProps (layer_at w2 r)) [4, 5], calls_since w1 w2)) =
   (Some (LayerError ''update of x''), [3, 4, 5], [Some 0, Some 0],
    [Render 3, Render 4, Render 5, Update 3])"
  by (simp add: frames_update_raises_def store_update_raises_def run_defs)

text \<open>
  C5 at a concrete frame: the layers a and b are dropped, the \<^verbatim>\<open>finalizeLayer\<close> of a
  throws. The empty forest is installed and the error of a is thrown, but b (reference
  1) has not been processed: it still holds its state and its \<^verbatim>\<open>finalizeLayer\<close> has not
  been called.
\<close>

theorem finalize_skipped_after_raise:
  "(let (w1, error, m, w2) = frames_finalize_raises
    in (error, layers m, state (layer_at w1 1), state (layer_at w2 1), calls_since w1 w2)) =
   (Some (LayerError ''finalize of a''), [], Some 1, Some 1, [Finalize 0])"
  by (simp add: frames_finalize_raises_def store_finalize_raises_def run_defs)

subsection \<open>The matching pass, step by step\<close>

lemma layer_id_with_context [simp]: "layer_id (layer_at (with_context r w) x) = layer_id (layer_at w x)"
  by (simp add: with_context_def set_layer_def)

text \<open>One run of the loop body in terms of its parts.\<close>

lemma matchLayer_unfold:
  "matchLayer (Layer r sublayers) mt =
     (case transfer_result r mt of
        Inl err \<Rightarrow> (Some err, skipped r mt)
      | Inr w1 \<Rightarrow>
          (case sublayers of
             Raises err \<Rightarrow> (Some err, entered r w1 mt)
           | Null \<Rightarrow> (None, entered r w1 mt)
           | Single t \<Rightarrow> (None, snd (matchSublayers [Some t] (entered r w1 mt)))
           | Array ts \<Rightarrow> (None, snd (matchSublayers ts (entered r w1 mt)))))"
  by (simp add: transfer_result_def skipped_def entered_def Let_def with_context_def [symmetric]
      split: sum.splits prod.splits rendered.splits slot.splits)

lemma matchSublayers_Cons:
  "matchSublayers (Some t # ts) mt =
     (or_else (fst (matchLayer t mt)) (fst (matchSublayers ts (snd (matchLayer t mt)))),
      snd (matchSublayers ts (snd (matchLayer t mt))))"
  by (cases "matchLayer t mt"; cases "matchSublayers ts (snd (matchLayer t mt))")
    (auto simp: or_else_def split: option.splits)

lemma matchSublayers_single: "snd (matchSublayers [Some t] mt) = snd (matchLayer t mt)"
  by (cases "matchLayer t mt") simp

text \<open>Induction over the matching pass with the two recursive calls spelled out.\<close>

lemma match_induct [case_names Nil Hole Cons Layer]:
  assumes nil: "\<And>mt. P [] mt"
    and hole: "\<And>ts mt. P ts mt \<Longrightarrow> P (None # ts) mt"
    and cons: "\<And>t ts mt. Q t mt \<Longrightarrow> P ts (snd (matchLayer t mt)) \<Longrightarrow> P (Some t # ts) mt"
    and layer: "\<And>r sublayers mt.
        (\<And>t w1. sublayers = Single t \<Longrightarrow> transfer_result r mt = Inr w1 \<Longrightarrow>
            P [Some t] (entered r w1 mt)) \<Longrightarrow>
        (\<And>ts w1. sublayers = Array ts \<Longrightarrow> transfer_result r mt = Inr w1 \<Longrightarrow>
            P ts (entered r w1 mt)) \<Longrightarrow>
        Q (Layer r sublayers) mt"
  shows "P ts mt" and "Q t mt"
proof (induction ts mt and t mt rule: matchSublayers_matchLayer.induct)
  case (1 mt)
  show ?case by (rule nil)
next
  case (2 newLayers mt)
  then show ?case by (rule hole)
next
  case (3 newLayer newLayers mt)
  show ?case
  proof (rule cons)
    show "Q newLayer mt" by (rule 3(1))
    show "P newLayers (snd (matchLayer newLayer mt))"
      by (rule 3(2) [OF refl prod.collapse])
  qed
next
  case (4 r sublayers mt)
  show ?case
  proof (rule layer)
    fix t w1
    assume s: "sublayers = Single t" and tr: "transfer_result r mt = Inr w1"
    show "P [Some t] (entered r w1 mt)"
      using 4(1) [OF refl refl refl refl _ refl _ refl s, of w1 "fst (initializeNewLayer r w1)" "snd (initializeNewLayer r w1)"] tr
      unfolding transfer_result_def entered_def with_context_def
      by (simp add: set_layer_def)
  next
    fix ts w1
    assume s: "sublayers = Array ts" and tr: "transfer_result r mt = Inr w1"
    show "P ts (entered r w1 mt)"
      using 4(2) [OF refl refl refl refl _ refl _ refl s, of w1 "fst (initializeNewLayer r w1)" "snd (initializeNewLayer r w1)"] tr
      unfolding transfer_result_def entered_def with_context_def
      by (simp add: set_layer_def)
  qed
qed

lemma layer_at_with_context:
  "layer_at (with_context r w) x = (if x = r then (layer_at w r)\<lparr>has_context := True\<rparr> else layer_at w x)"
  by (simp add: with_context_def set_layer_def)

lemma calls_with_context [simp]: "calls (with_context r w) = calls w"
  by (simp add: with_context_def set_layer_def)

lemma state_with_context [simp]: "state (layer_at (with_context r w) x) = state (layer_at w x)"
  by (simp add: layer_at_with_context)

lemma oldProps_with_context [simp]: "oldProps (layer_at (with_context r w) x) = oldProps (layer_at w x)"
  by (simp add: layer_at_with_context)

lemma props_with_context [simp]: "props (layer_at (with_context r w) x) = props (layer_at w x)"
  by (simp add: layer_at_with_context)

lemma update_raises_with_context [simp]:
  "updateLayer_raises (layer_at (with_context r w) x) = updateLayer_raises (layer_at w x)"
  by (simp add: layer_at_with_context)

lemma transferLayerState_Inr_iff:
  "(\<exists>w1. transferLayerState ol r w = Inr w1) \<longleftrightarrow> state (layer_at w ol) \<noteq> None \<and> ol \<noteq> r"
  by (auto simp: transferLayerState_def Let_def split: option.splits)

lemma transferLayerState_layer_at:
  assumes "transferLayerState ol r w = Inr w1"
  shows "layer_at w1 x =
     (if x = ol then (layer_at w ol)\<lparr>state := None\<rparr>
      else if x = r then (layer_at w r)\<lparr>state := state (layer_at w ol), oldProps := Some (props (layer_at w ol))\<rparr>
      else layer_at w x)"
  using assms
  by (auto simp: transferLayerState_def Let_def set_layer_def set_state_def split: option.splits if_splits)

lemma transferLayerState_calls:
  "transferLayerState ol r w = Inr w1 \<Longrightarrow> calls w1 = calls w"
  by (auto simp: transferLayerState_def Let_def set_layer_def set_state_def split: option.splits if_splits)

lemma initializeNewLayer_has_state:
  "state (layer_at w r) \<noteq> None \<Longrightarrow> initializeNewLayer r w = (None, w)"
  by (auto simp: initializeNewLayer_def)

lemma initializeNewLayer_layer_at:
  "layer_at (snd (initializeNewLayer r w)) x =
     (if x = r \<and> state (layer_at w r) = None \<and> initializeLayer_creates_state (layer_at w r)
      then (layer_at w r)\<lparr>state := Some (next_state w)\<rparr> else layer_at w x)"
  by (auto simp: initializeNewLayer_def call_initializeLayer_def Let_def set_layer_def
      set_state_def record_call_def split: option.splits)

lemma initializeNewLayer_calls:
  "calls (snd (initializeNewLayer r w)) =
     calls w @ (if state (layer_at w r) = None then [Initialize r] else [])"
  by (auto simp: initializeNewLayer_def call_initializeLayer_def Let_def set_layer_def
      set_state_def record_call_def split: option.splits)

lemma layer_at_record_call [simp]: "layer_at (record_call e w) = layer_at w"
  by (simp add: record_call_def)

lemma calls_record_call [simp]: "calls (record_call e w) = calls w @ [e]"
  by (simp add: record_call_def)

lemma assign_null_other:
  "m k \<noteq> Inherited \<Longrightarrow> assign_null k m = m(k := Null_slot)"
  by (auto simp: assign_null_def)

lemma assign_null_Old [simp]: "assign_null k m j = Old x \<longleftrightarrow> j \<noteq> k \<and> m j = Old x"
  by (auto simp: assign_null_def)

lemma assign_null_not_Inherited: "m j \<noteq> Inherited \<Longrightarrow> assign_null k m j \<noteq> Inherited"
  by (auto simp: assign_null_def)

lemma assign_null_elsewhere: "j \<noteq> k \<Longrightarrow> m j \<noteq> Inherited \<Longrightarrow> assign_null k m j = m j"
  by (auto simp: assign_null_def)

lemma skipped_simps [simp]:
  "oldLayerMap (skipped r mt) = assign_null (layer_id (layer_at (store mt) r)) (oldLayerMap mt)"
  "generatedLayers (skipped r mt) = generatedLayers mt"
  "store (skipped r mt) = with_context r (store mt)"
  by (simp_all add: skipped_def)

lemma entered_simps [simp]:
  "oldLayerMap (entered r w1 mt) = assign_null (layer_id (layer_at (store mt) r)) (oldLayerMap mt)"
  "generatedLayers (entered r w1 mt) = generatedLayers mt @ [r]"
  by (simp_all add: entered_def)

lemma entered_store:
  "store (entered r w1 mt) = record_call (Render r) (snd (initializeNewLayer r w1))"
  by (simp add: entered_def)

lemma transfer_result_layer_at:
  assumes "transfer_result r mt = Inr w1"
  shows "layer_at w1 x =
     (case oldLayerMap mt (layer_id (layer_at (store mt) r)) of
        Old ol \<Rightarrow>
          if x = ol then (layer_at (store mt) ol)\<lparr>state := None\<rparr>
          else if x = r then (layer_at (store mt) r)
             \<lparr>state := state (layer_at (store mt) ol),
              oldProps := Some (props (layer_at (store mt) ol)), has_context := True\<rparr>
          else layer_at (store mt) x
      | _ \<Rightarrow> layer_at (with_context r (store mt)) x)"
proof (cases "oldLayerMap mt (layer_id (layer_at (store mt) r))")
  case (Old ol)
  with assms have t: "transferLayerState ol r (with_context r (store mt)) = Inr w1"
    by (simp add: transfer_result_def)
  from t have "ol \<noteq> r" using transferLayerState_Inr_iff by blast
  then show ?thesis using Old transferLayerState_layer_at [OF t, of x]
    by (auto simp: layer_at_with_context)
qed (use assms in \<open>auto simp: transfer_result_def\<close>)

lemma transfer_result_calls:
  "transfer_result r mt = Inr w1 \<Longrightarrow> calls w1 = calls (store mt)"
  by (auto simp: transfer_result_def transferLayerState_calls split: slot.splits)

lemma transfer_result_layer_id:
  "transfer_result r mt = Inr w1 \<Longrightarrow> layer_id (layer_at w1 x) = layer_id (layer_at (store mt) x)"
  by (auto simp: transfer_result_layer_at layer_at_with_context split: slot.splits)

lemma entered_layer_id:
  "transfer_result r mt = Inr w1 \<Longrightarrow>
     layer_id (layer_at (store (entered r w1 mt)) x) = layer_id (layer_at (store mt) x)"
  by (simp add: entered_store initializeNewLayer_layer_at transfer_result_layer_id)

declare matchSublayers.simps(3) [simp del] matchLayer.simps [simp del]

lemma snd_matchSublayers_Cons [simp]:
  "snd (matchSublayers (Some t # ts) mt) = snd (matchSublayers ts (snd (matchLayer t mt)))"
  by (simp add: matchSublayers_Cons)

lemma fst_matchSublayers_Cons [simp]:
  "fst (matchSublayers (Some t # ts) mt) =
     or_else (fst (matchLayer t mt)) (fst (matchSublayers ts (snd (matchLayer t mt))))"
  by (simp add: matchSublayers_Cons)

subsection \<open>Fields the manager never writes\<close>

lemma same_static_refl [simp]: "same_static w w"
proof -
  have "layer_at w x = (layer_at w x)\<lparr>state := state (layer_at w x),
      oldProps := oldProps (layer_at w x), has_context := has_context (layer_at w x)\<rparr>" for x
    by simp
  then show ?thesis unfolding same_static_def by blast
qed

lemma same_static_trans: "same_static w w1 \<Longrightarrow> same_static w1 w2 \<Longrightarrow> same_static w w2"
  unfolding same_static_def
proof (intro allI)
  fix x
  assume a: "\<forall>x. \<exists>s p c. layer_at w1 x = (layer_at w x)\<lparr>state := s, oldProps := p, has_context := c\<rparr>"
    and b: "\<forall>x. \<exists>s p c. layer_at w2 x = (layer_at w1 x)\<lparr>state := s, oldProps := p, has_context := c\<rparr>"
  from a obtain s p c where 1: "layer_at w1 x = (layer_at w x)\<lparr>state := s, oldProps := p, has_context := c\<rparr>"
    by blast
  from b obtain s' p' c' where 2: "layer_at w2 x = (layer_at w1 x)\<lparr>state := s', oldProps := p', has_context := c'\<rparr>"
    by blast
  have "layer_at w2 x = (layer_at w x)\<lparr>state := s', oldProps := p', has_context := c'\<rparr>"
    by (simp add: 1 2)
  then show "\<exists>s p c. layer_at w2 x = (layer_at w x)\<lparr>state := s, oldProps := p, has_context := c\<rparr>"
    by blast
qed

lemma same_staticI:
  assumes "\<And>x. layer_at w1 x = (layer_at w x)\<lparr>state := state (layer_at w1 x),
      oldProps := oldProps (layer_at w1 x), has_context := has_context (layer_at w1 x)\<rparr>"
  shows "same_static w w1"
  unfolding same_static_def using assms by blast

lemma same_static_layer_id: "same_static w w1 \<Longrightarrow> layer_id (layer_at w1 x) = layer_id (layer_at w x)"
  unfolding same_static_def
proof -
  assume "\<forall>x. \<exists>s p c. layer_at w1 x = (layer_at w x)\<lparr>state := s, oldProps := p, has_context := c\<rparr>"
  then obtain s p c where "layer_at w1 x = (layer_at w x)\<lparr>state := s, oldProps := p, has_context := c\<rparr>"
    by blast
  then show ?thesis by simp
qed

lemma same_static_update_raises:
  "same_static w w1 \<Longrightarrow> updateLayer_raises (layer_at w1 x) = updateLayer_raises (layer_at w x)"
  unfolding same_static_def
proof -
  assume "\<forall>x. \<exists>s p c. layer_at w1 x = (layer_at w x)\<lparr>state := s, oldProps := p, has_context := c\<rparr>"
  then obtain s p c where "layer_at w1 x = (layer_at w x)\<lparr>state := s, oldProps := p, has_context := c\<rparr>"
    by blast
  then show ?thesis by simp
qed

lemma same_static_with_context: "same_static w (with_context r w)"
  by (rule same_staticI) (simp add: layer_at_with_context)

lemma same_static_record_call: "same_static w (record_call e w)"
  by (rule same_staticI) simp

lemma same_static_initializeNewLayer: "same_static w (snd (initializeNewLayer r w))"
  by (rule same_staticI) (simp add: initializeNewLayer_layer_at)

lemma same_static_transfer_result:
  "transfer_result r mt = Inr w1 \<Longrightarrow> same_static (store mt) w1"
  by (rule same_staticI)
    (auto simp: transfer_result_layer_at layer_at_with_context split: slot.splits)

lemma same_static_entered:
  "transfer_result r mt = Inr w1 \<Longrightarrow> same_static (store mt) (store (entered r w1 mt))"
  using same_static_transfer_result [of r mt w1] same_static_initializeNewLayer [of w1 r]
    same_static_record_call [of "snd (initializeNewLayer r w1)" "Render r"]
  by (auto simp: entered_store intro: same_static_trans)

lemma same_static_matching:
  shows "same_static (store mt) (store (snd (matchSublayers ts mt)))"
    and "same_static (store mt) (store (snd (matchLayer t mt)))"
proof (induction ts mt and t mt rule: match_induct)
  case (Nil mt)
  show ?case by simp
next
  case (Hole ts mt)
  then show ?case by simp
next
  case (Cons t ts mt)
  then show ?case by (auto intro: same_static_trans)
next
  case (Layer r sublayers mt)
  show ?case
  proof (cases "transfer_result r mt")
    case (Inl err)
    then show ?thesis by (simp add: matchLayer_unfold same_static_with_context)
  next
    case (Inr w1)
    note e = same_static_entered [OF Inr]
    show ?thesis
    proof (cases sublayers)
      case (Single t)
      with Layer(1) [OF Single Inr] Inr e show ?thesis
        by (auto simp: matchLayer_unfold intro: same_static_trans)
    next
      case (Array ts)
      with Layer(2) [OF Array Inr] Inr e show ?thesis
        by (auto simp: matchLayer_unfold intro: same_static_trans)
    qed (use Inr e in \<open>simp_all add: matchLayer_unfold\<close>)
  qed
qed

subsection \<open>The calls of each phase\<close>

lemma calls_entered:
  "transfer_result r mt = Inr w1 \<Longrightarrow>
     calls (store (entered r w1 mt)) =
       calls (store mt) @ (if state (layer_at w1 r) = None then [Initialize r] else []) @ [Render r]"
  by (simp add: entered_store initializeNewLayer_calls transfer_result_calls)

lemma calls_matching:
  shows "\<exists>ms. calls (store (snd (matchSublayers ts mt))) = calls (store mt) @ ms \<and> list_all match_event ms"
    and "\<exists>ms. calls (store (snd (matchLayer t mt))) = calls (store mt) @ ms \<and> list_all match_event ms"
proof (induction ts mt and t mt rule: match_induct)
  case (Nil mt)
  show ?case by simp
next
  case (Hole ts mt)
  then show ?case by simp
next
  case (Cons t ts mt)
  from Cons(1) obtain ms1 where a: "calls (store (snd (matchLayer t mt))) = calls (store mt) @ ms1"
    "list_all match_event ms1" by blast
  from Cons(2) obtain ms2 where b: "calls (store (snd (matchSublayers ts (snd (matchLayer t mt))))) =
      calls (store (snd (matchLayer t mt))) @ ms2" "list_all match_event ms2" by blast
  have "calls (store (snd (matchSublayers (Some t # ts) mt))) = calls (store mt) @ (ms1 @ ms2)"
    by (simp add: a b)
  moreover have "list_all match_event (ms1 @ ms2)" using a b by simp
  ultimately show ?case by blast
next
  case (Layer r sublayers mt)
  show ?case
  proof (cases "transfer_result r mt")
    case (Inl err)
    then show ?thesis by (simp add: matchLayer_unfold)
  next
    case (Inr w1)
    define ms0 where "ms0 = (if state (layer_at w1 r) = None then [Initialize r] else []) @ [Render r]"
    have e: "calls (store (entered r w1 mt)) = calls (store mt) @ ms0"
      unfolding ms0_def by (rule calls_entered [OF Inr])
    have m0: "list_all match_event ms0"
      by (simp add: ms0_def match_event_def is_Initialize_def is_Render_def)
    have step: "\<exists>ms. calls (store mt2) = calls (store mt) @ ms \<and> list_all match_event ms"
      if "\<exists>ms. calls (store mt2) = calls (store (entered r w1 mt)) @ ms \<and> list_all match_event ms" for mt2
    proof -
      from that obtain ms where "calls (store mt2) = calls (store (entered r w1 mt)) @ ms"
        "list_all match_event ms" by blast
      then have "calls (store mt2) = calls (store mt) @ (ms0 @ ms)" "list_all match_event (ms0 @ ms)"
        using e m0 by simp_all
      then show ?thesis by blast
    qed
    show ?thesis
    proof (cases sublayers)
      case (Raises err)
      then show ?thesis using e m0 Inr by (auto simp: matchLayer_unfold)
    next
      case Null
      then show ?thesis using e m0 Inr by (auto simp: matchLayer_unfold)
    next
      case (Single t)
      from step [OF Layer(1) [OF Single Inr]] show ?thesis
        using Single Inr by (simp add: matchLayer_unfold)
    next
      case (Array ts)
      from step [OF Layer(2) [OF Array Inr]] show ?thesis
        using Array Inr by (simp add: matchLayer_unfold)
    qed
  qed
qed

lemma calls_finalizeLayer:
  "calls (snd (finalizeLayer r w)) =
     calls w @ (if state (layer_at w r) = None then [] else [Finalize r])"
  by (auto simp: finalizeLayer_def set_layer_def record_call_def split: option.splits)

lemma calls_updateLayer:
  "calls (snd (updateLayer r w)) =
     calls w @ (if oldProps (layer_at w r) = None then [] else [Update r])"
  by (auto simp: updateLayer_def record_call_def split: option.splits)

lemma calls_finalizeOldLayers:
  "\<exists>fs. calls (snd (finalizeOldLayers rs error w)) = calls w @ map Finalize fs"
proof (induction rs arbitrary: error w)
  case Nil
  show ?case by simp
next
  case (Cons r rs)
  show ?case
  proof (cases error)
    case (Some e)
    with Cons [of "Some e" w] show ?thesis by simp
  next
    case None
    obtain e w1 where f: "finalizeLayer r w = (e, w1)" by (cases "finalizeLayer r w")
    from Cons [of e w1] obtain fs where "calls (snd (finalizeOldLayers rs e w1)) = calls w1 @ map Finalize fs"
      by blast
    moreover have "calls w1 = calls w @ map Finalize (if state (layer_at w r) = None then [] else [r])"
      using calls_finalizeLayer [of r w] f by simp
    ultimately have "calls (snd (finalizeOldLayers (r # rs) error w)) =
        calls w @ map Finalize ((if state (layer_at w r) = None then [] else [r]) @ fs)"
      using None f by simp
    then show ?thesis by blast
  qed
qed

lemma calls_updateMatchedLayers:
  "\<exists>us. calls (snd (updateMatchedLayers rs error w)) = calls w @ map Update us"
proof (induction rs arbitrary: error w)
  case Nil
  show ?case by simp
next
  case (Cons r rs)
  show ?case
  proof (cases error)
    case (Some e)
    with Cons [of "Some e" w] show ?thesis by simp
  next
    case None
    obtain e w1 where f: "updateLayer r w = (e, w1)" by (cases "updateLayer r w")
    from Cons [of e w1] obtain us where "calls (snd (updateMatchedLayers rs e w1)) = calls w1 @ map Update us"
      by blast
    moreover have "calls w1 = calls w @ map Update (if oldProps (layer_at w r) = None then [] else [r])"
      using calls_updateLayer [of r w] f by simp
    ultimately have "calls (snd (updateMatchedLayers (r # rs) error w)) =
        calls w @ map Update ((if oldProps (layer_at w r) = None then [] else [r]) @ us)"
      using None f by simp
    then show ?thesis by blast
  qed
qed

lemma calls_initializeNewLayers:
  "\<exists>ns. calls (snd (initializeNewLayers rs error w)) = calls w @ map Initialize ns"
proof (induction rs arbitrary: error w)
  case Nil
  show ?case by simp
next
  case (Cons r rs)
  obtain e w1 where f: "initializeNewLayer r w = (e, w1)" by (cases "initializeNewLayer r w")
  from Cons [of "case error of None \<Rightarrow> e | Some e' \<Rightarrow> Some e'" w1] obtain ns where
    "calls (snd (initializeNewLayers rs (case error of None \<Rightarrow> e | Some e' \<Rightarrow> Some e') w1)) =
       calls w1 @ map Initialize ns"
    by blast
  moreover have "calls w1 = calls w @ map Initialize (if state (layer_at w r) = None then [r] else [])"
    using initializeNewLayer_calls [of r w] f by simp
  ultimately have "calls (snd (initializeNewLayers (r # rs) error w)) =
      calls w @ map Initialize ((if state (layer_at w r) = None then [r] else []) @ ns)"
    using f by simp
  then show ?case by blast
qed

lemma calls_set_contexts:
  "calls (fold (\<lambda>newLayer. case newLayer of None \<Rightarrow> (\<lambda>w. w)
       | Some t \<Rightarrow> set_layer (ref_of t) (\<lambda>l. l\<lparr>has_context := True\<rparr>)) ts w) = calls w"
  by (induction ts arbitrary: w) (auto simp: set_layer_def split: option.splits)

lemma all_before_append:
  "all_before P Q (xs @ ys) \<longleftrightarrow>
     all_before P Q xs \<and> all_before P Q ys \<and> \<not> (list_ex Q xs \<and> list_ex P ys)"
  by (induction xs) auto

lemma all_before_none: "\<not> list_ex Q xs \<Longrightarrow> all_before P Q xs"
  by (induction xs) auto

lemma all_before_none': "\<not> list_ex P xs \<Longrightarrow> all_before P Q xs"
  by (induction xs) auto

lemma list_ex_map_event [simp]:
  "\<not> list_ex is_Update (map Finalize fs)" "\<not> list_ex is_Update (map Initialize ns)"
  "\<not> list_ex is_Finalize (map Update us)" "\<not> list_ex is_Finalize (map Initialize ns)"
  by (simp_all add: list_ex_iff is_Update_def is_Finalize_def)

lemma match_event_not:
  "list_all match_event ms \<Longrightarrow> \<not> list_ex is_Update ms \<and> \<not> list_ex is_Finalize ms"
  by (induction ms) (auto simp: match_event_def is_Update_def is_Finalize_def is_Initialize_def
      is_Render_def split: event.splits)

text \<open>
  C2, as the code has it. The calls of one \<^verbatim>\<open>updateLayers\<close> come in four blocks: first
  the calls of the matching pass, which are \<^verbatim>\<open>initializeLayer\<close> and \<^verbatim>\<open>renderLayers\<close>
  calls only (a new layer is initialised as soon as it is met); then the
  \<^verbatim>\<open>finalizeLayer\<close> calls; then the \<^verbatim>\<open>updateLayer\<close> calls; then the
  \<^verbatim>\<open>initializeLayer\<close> calls for the layers that still have no state. So every
  finalize call is made before any update call.
\<close>

theorem updateLayers_call_order:
  "\<exists>ms fs us ns.
     calls_since w (snd (snd (updateLayers newLayers m w))) =
       ms @ map Finalize fs @ map Update us @ map Initialize ns \<and>
     list_all (\<lambda>e. is_Initialize e \<or> is_Render e) ms \<and>
     all_before is_Finalize is_Update (calls_since w (snd (snd (updateLayers newLayers m w))))"
proof -
  define nl where "nl = filter (\<lambda>newLayer. newLayer \<noteq> None) newLayers"
  define w0 where "w0 = fold (\<lambda>newLayer. case newLayer of None \<Rightarrow> (\<lambda>w. w)
       | Some t \<Rightarrow> set_layer (ref_of t) (\<lambda>l. l\<lparr>has_context := True\<rparr>)) nl w"
  define mt0 where "mt0 = \<lparr>oldLayerMap = create_oldLayerMap (layers m) w0 empty_object,
               generatedLayers = [], store = w0\<rparr>"
  define mt1 where "mt1 = snd (matchSublayers nl mt0)"
  define w2 where "w2 = snd (finalizeOldLayers (layers m) None (store mt1))"
  define w3 where "w3 = snd (updateMatchedLayers (generatedLayers mt1) None w2)"
  define w4 where "w4 = snd (initializeNewLayers (generatedLayers mt1) None w3)"
  have res: "snd (snd (updateLayers newLayers m w)) = w4"
    by (simp add: updateLayers_def updateLayers_internal_def matchLayers_def Let_def
        nl_def w0_def mt0_def mt1_def w2_def w3_def w4_def split: prod.splits)
  have c0: "calls w0 = calls w" by (simp add: w0_def calls_set_contexts)
  obtain ms where ms: "calls (store mt1) = calls w0 @ ms" "list_all match_event ms"
    using calls_matching(1) [of nl mt0] by (auto simp: mt1_def mt0_def)
  obtain fs where fs: "calls w2 = calls (store mt1) @ map Finalize fs"
    using calls_finalizeOldLayers [of "layers m" None "store mt1"] by (auto simp: w2_def)
  obtain us where us: "calls w3 = calls w2 @ map Update us"
    using calls_updateMatchedLayers [of "generatedLayers mt1" None w2] by (auto simp: w3_def)
  obtain ns where ns: "calls w4 = calls w3 @ map Initialize ns"
    using calls_initializeNewLayers [of "generatedLayers mt1" None w3] by (auto simp: w4_def)
  have eq: "calls_since w w4 = ms @ map Finalize fs @ map Update us @ map Initialize ns"
    by (simp add: calls_since_def ns us fs ms c0)
  have ord: "all_before is_Finalize is_Update (ms @ map Finalize fs @ map Update us @ map Initialize ns)"
    using match_event_not [OF ms(2)]
    by (simp add: all_before_append all_before_none all_before_none')
  have "list_all (\<lambda>e. is_Initialize e \<or> is_Render e) ms"
    using ms(2) by (simp add: match_event_def [abs_def])
  with eq ord show ?thesis unfolding res by (metis (no_types, lifting))
qed

subsection \<open>Matching when no sanity check can fail\<close>

lemma match_ok_ids: "match_ok idf N mt \<Longrightarrow> layer_id (layer_at (store mt) x) = idf x"
  by (simp add: match_ok_def)

lemma match_ok_Old:
  "match_ok idf N mt \<Longrightarrow> oldLayerMap mt k = Old ol \<Longrightarrow>
     idf ol = k \<and> state (layer_at (store mt) ol) \<noteq> None \<and> ol \<notin> N"
  by (simp add: match_ok_def)

lemma match_ok_not_Inherited:
  "match_ok idf N mt \<Longrightarrow> r \<in> N \<Longrightarrow> oldLayerMap mt (layer_id (layer_at (store mt) r)) \<noteq> Inherited"
  by (simp add: match_ok_def)

lemma match_ok_assign_null:
  "match_ok idf N mt \<Longrightarrow> r \<in> N \<Longrightarrow>
     assign_null (layer_id (layer_at (store mt) r)) (oldLayerMap mt) =
       (oldLayerMap mt)(idf r := Null_slot)"
  using assign_null_other [of "oldLayerMap mt" "idf r"] by (simp add: match_ok_def)

lemma transfer_ok:
  assumes "match_ok idf N mt" and "r \<in> N"
  shows "\<exists>w1. transfer_result r mt = Inr w1"
proof (cases "oldLayerMap mt (layer_id (layer_at (store mt) r))")
  case (Old ol)
  from match_ok_Old [OF assms(1) Old] assms(2)
  have "state (layer_at (with_context r (store mt)) ol) \<noteq> None \<and> ol \<noteq> r" by auto
  then obtain w1 where "transferLayerState ol r (with_context r (store mt)) = Inr w1"
    using transferLayerState_Inr_iff by blast
  with Old show ?thesis by (simp add: transfer_result_def)
next
  case Inherited
  with match_ok_not_Inherited [OF assms] show ?thesis by simp
qed (simp_all add: transfer_result_def)

lemma entered_other_layer:
  assumes "transfer_result r mt = Inr w1" and "x \<noteq> r"
    and "oldLayerMap mt (layer_id (layer_at (store mt) r)) \<noteq> Old x"
  shows "layer_at (store (entered r w1 mt)) x = layer_at (store mt) x"
  using assms
  by (auto simp: entered_store initializeNewLayer_layer_at transfer_result_layer_at
      layer_at_with_context split: slot.splits)

lemma entered_ok:
  assumes ok: "match_ok idf N mt" and r: "r \<in> N" and tr: "transfer_result r mt = Inr w1"
  shows "match_ok idf N (entered r w1 mt)"
proof -
  have "layer_id (layer_at (store (entered r w1 mt)) x) = idf x" for x
    using entered_layer_id [OF tr, of x] match_ok_ids [OF ok] by simp
  moreover have "idf ol = k \<and> state (layer_at (store (entered r w1 mt)) ol) \<noteq> None \<and> ol \<notin> N"
    if a: "oldLayerMap (entered r w1 mt) k = Old ol" for k ol
  proof -
  from a have k: "k \<noteq> layer_id (layer_at (store mt) r)" and o: "oldLayerMap mt k = Old ol"
    by (auto split: if_splits)
  from match_ok_Old [OF ok o] have p: "idf ol = k" "state (layer_at (store mt) ol) \<noteq> None" "ol \<notin> N"
    by auto
  have "ol \<noteq> r" using p(3) r by auto
  moreover have "oldLayerMap mt (layer_id (layer_at (store mt) r)) \<noteq> Old ol"
  proof
    assume "oldLayerMap mt (layer_id (layer_at (store mt) r)) = Old ol"
    from match_ok_Old [OF ok this] p(1) k show False by simp
  qed
  ultimately have "layer_at (store (entered r w1 mt)) ol = layer_at (store mt) ol"
    using entered_other_layer [OF tr, of ol] by blast
  with p show ?thesis
    by simp
  qed
  moreover have "oldLayerMap (entered r w1 mt) (idf x) \<noteq> Inherited" if "x \<in> N" for x
  proof -
    from ok that have "oldLayerMap mt (idf x) \<noteq> Inherited" by (simp add: match_ok_def)
    then show ?thesis by (simp add: assign_null_not_Inherited)
  qed
  ultimately show ?thesis unfolding match_ok_def by blast
qed

lemma flatten_single [simp]: "flatten_forest [Some t] = flatten_layer t"
  by simp

text \<open>Induction over a matching pass that starts from \<open>match_ok\<close>: the sanity
  checks pass, and \<open>match_ok\<close> holds at every recursive call.\<close>

lemma match_ok_induct [consumes 2, case_names Nil Hole Cons Layer]:
  assumes ok0: "match_ok idf N mt0" and sub0: "set (flatten_forest ts0) \<subseteq> N"
    and nil: "\<And>mt. match_ok idf N mt \<Longrightarrow> P [] mt"
    and hole: "\<And>ts mt. match_ok idf N mt \<Longrightarrow> set (flatten_forest ts) \<subseteq> N \<Longrightarrow> P ts mt \<Longrightarrow>
        P (None # ts) mt"
    and cons: "\<And>t ts mt. match_ok idf N mt \<Longrightarrow> set (flatten_layer t) \<subseteq> N \<Longrightarrow>
        set (flatten_forest ts) \<subseteq> N \<Longrightarrow> match_ok idf N (snd (matchLayer t mt)) \<Longrightarrow>
        P [Some t] mt \<Longrightarrow> P ts (snd (matchLayer t mt)) \<Longrightarrow> P (Some t # ts) mt"
    and layer: "\<And>r sublayers mt w1. match_ok idf N mt \<Longrightarrow> r \<in> N \<Longrightarrow>
        transfer_result r mt = Inr w1 \<Longrightarrow> match_ok idf N (entered r w1 mt) \<Longrightarrow>
        (case sublayers of Single t \<Rightarrow> P [Some t] (entered r w1 mt)
           | Array ts \<Rightarrow> P ts (entered r w1 mt) | _ \<Rightarrow> True) \<Longrightarrow>
        set (flatten_layer (Layer r sublayers)) \<subseteq> N \<Longrightarrow>
        P [Some (Layer r sublayers)] mt"
  shows "P ts0 mt0"
proof -
  have "match_ok idf N mt \<longrightarrow> set (flatten_forest ts) \<subseteq> N \<longrightarrow>
          P ts mt \<and> match_ok idf N (snd (matchSublayers ts mt))"
    and "match_ok idf N mt \<longrightarrow> set (flatten_layer t) \<subseteq> N \<longrightarrow>
          P [Some t] mt \<and> match_ok idf N (snd (matchLayer t mt))" for ts mt t
  proof (induction ts mt and t mt rule: match_induct)
    case (Nil mt)
    show ?case by (simp add: nil)
  next
    case (Hole ts mt)
    then show ?case by (simp add: hole)
  next
    case (Cons t ts mt)
    then show ?case by (auto intro: cons)
  next
    case (Layer r sublayers mt)
    show ?case
    proof (intro impI)
      assume ok: "match_ok idf N mt" and sub: "set (flatten_layer (Layer r sublayers)) \<subseteq> N"
      then have r: "r \<in> N" by simp
      from transfer_ok [OF ok r] obtain w1 where tr: "transfer_result r mt = Inr w1" by blast
      note e = entered_ok [OF ok r tr]
      have ih: "case sublayers of Single t \<Rightarrow> P [Some t] (entered r w1 mt)
           | Array ts \<Rightarrow> P ts (entered r w1 mt) | _ \<Rightarrow> True"
        using Layer(1) [OF _ tr] Layer(2) [OF _ tr] e sub by (auto split: rendered.splits)
      have "P [Some (Layer r sublayers)] mt"
        by (rule layer [OF ok r tr e ih sub])
      moreover have "match_ok idf N (snd (matchLayer (Layer r sublayers) mt))"
        using Layer(1) [OF _ tr] Layer(2) [OF _ tr] e sub tr
        by (auto simp: matchLayer_unfold split: rendered.splits)
      ultimately show "P [Some (Layer r sublayers)] mt \<and>
          match_ok idf N (snd (matchLayer (Layer r sublayers) mt))" by simp
    qed
  qed
  then show ?thesis using ok0 sub0 by blast
qed

lemma matching_generated:
  assumes "match_ok idf N mt" and "set (flatten_forest ts) \<subseteq> N"
  shows "generatedLayers (snd (matchSublayers ts mt)) = generatedLayers mt @ flatten_forest ts \<and>
    oldLayerMap (snd (matchSublayers ts mt)) =
      (\<lambda>k. if k \<in> idf ` set (flatten_forest ts) then Null_slot else oldLayerMap mt k)"
  using assms
proof (induction rule: match_ok_induct)
  case (Nil mt)
  show ?case by simp
next
  case (Hole ts mt)
  then show ?case by simp
next
  case (Cons t ts mt)
  then show ?case by (auto simp: fun_eq_iff)
next
  case (Layer r sublayers mt w1)
  have m: "oldLayerMap (entered r w1 mt) = (oldLayerMap mt)(idf r := Null_slot)"
    by (simp add: match_ok_assign_null [OF Layer(1,2)])
  show ?case
    using Layer(3) Layer.IH m
    by (cases sublayers) (auto simp: matchLayer_unfold fun_eq_iff)
qed

lemma create_oldLayerMap_Old:
  "create_oldLayerMap old w m0 k = Old ol \<Longrightarrow>
     m0 k = Old ol \<or> (ol \<in> set old \<and> layer_id (layer_at w ol) = k)"
proof (induction old arbitrary: m0)
  case Nil
  then show ?case by simp
next
  case (Cons a old)
  show ?case
  proof (cases "m0 (layer_id (layer_at w a))")
    case (Old other)
    with Cons.prems have "create_oldLayerMap old w m0 k = Old ol" by simp
    from Cons.IH [OF this] show ?thesis by auto
  next
    case Undefined
    with Cons.prems have "create_oldLayerMap old w (m0(layer_id (layer_at w a) := Old a)) k = Old ol"
      by simp
    from Cons.IH [OF this] show ?thesis by (auto split: if_splits)
  next
    case Null_slot
    with Cons.prems have "create_oldLayerMap old w (m0(layer_id (layer_at w a) := Old a)) k = Old ol"
      by simp
    from Cons.IH [OF this] show ?thesis by (auto split: if_splits)
  next
    case Inherited
    with Cons.prems have "create_oldLayerMap old w m0 k = Old ol" by simp
    from Cons.IH [OF this] show ?thesis by auto
  qed
qed

lemma create_oldLayerMap_Inherited:
  "create_oldLayerMap old w m0 k = Inherited \<longleftrightarrow> m0 k = Inherited"
proof (induction old arbitrary: m0)
  case Nil
  show ?case by simp
next
  case (Cons a old)
  show ?case
    by (cases "m0 (layer_id (layer_at w a))") (simp_all add: Cons)
qed

lemma empty_object_Old [simp]: "empty_object k \<noteq> Old ol"
  by (simp add: empty_object_def)

lemma empty_object_Inherited [simp]:
  "empty_object k = Inherited \<longleftrightarrow> k \<in> set Object_prototype_keys"
  by (simp add: empty_object_def)

lemma set_contexts_simps [simp]:
  "set_contexts [] w = w"
  "set_contexts (None # ts) w = set_contexts ts w"
  "set_contexts (Some t # ts) w = set_contexts ts (with_context (ref_of t) w)"
  by (simp_all add: set_contexts_def with_context_def)

lemma same_static_set_contexts: "same_static w (set_contexts ts w)"
proof (induction ts arbitrary: w)
  case Nil
  show ?case by simp
next
  case (Cons a ts)
  show ?case
  proof (cases a)
    case None
    then show ?thesis using Cons by simp
  next
    case (Some t)
    then show ?thesis
      using Cons [of "with_context (ref_of t) w"] same_static_with_context [of w "ref_of t"]
      by (auto intro: same_static_trans)
  qed
qed

lemma state_set_contexts [simp]: "state (layer_at (set_contexts ts w) x) = state (layer_at w x)"
proof (induction ts arbitrary: w)
  case Nil
  show ?case by simp
next
  case (Cons a ts)
  then show ?case by (cases a) simp_all
qed

lemma calls_set_contexts' [simp]: "calls (set_contexts ts w) = calls w"
  by (simp add: set_contexts_def calls_set_contexts)

lemma flatten_forest_filter [simp]:
  "flatten_forest (filter (\<lambda>newLayer. newLayer \<noteq> None) ts) = flatten_forest ts"
proof (induction ts)
  case Nil
  show ?case by simp
next
  case (Cons a ts)
  then show ?case by (cases a) simp_all
qed

lemma updateLayers_unfold:
  "updateLayers newLayers m w =
     (let nl = filter (\<lambda>newLayer. newLayer \<noteq> None) newLayers;
          r = updateLayers_internal (layers m) nl (set_contexts nl w)
      in (fst r, m\<lparr>prevLayers := layers m, layers := fst (snd r)\<rparr>, snd (snd r)))"
  by (simp add: updateLayers_def set_contexts_def Let_def split: prod.splits)

lemma updateLayers_internal_unfold:
  "updateLayers_internal old nl w =
     (let mt0 = \<lparr>oldLayerMap = create_oldLayerMap old w empty_object,
                 generatedLayers = [], store = w\<rparr>;
          mt1 = snd (matchSublayers nl mt0);
          r2 = finalizeOldLayers old None (store mt1);
          r3 = updateMatchedLayers (generatedLayers mt1) None (snd r2);
          r4 = initializeNewLayers (generatedLayers mt1) None (snd r3)
      in (or_else (fst (matchSublayers nl mt0)) (or_else (fst r2) (or_else (fst r3) (fst r4))),
          generatedLayers mt1, snd r4))"
  by (simp add: updateLayers_internal_def matchLayers_def Let_def split: prod.splits)

lemma initial_match_ok:
  assumes "\<forall>ol \<in> set old. state (layer_at w ol) \<noteq> None" and "N \<inter> set old = {}"
    and "\<forall>x \<in> N. layer_id (layer_at w x) \<notin> set Object_prototype_keys"
  shows "match_ok (\<lambda>x. layer_id (layer_at w x)) N
     \<lparr>oldLayerMap = create_oldLayerMap old w empty_object, generatedLayers = [], store = w\<rparr>"
proof -
  have "layer_id (layer_at w ol) = k \<and> state (layer_at w ol) \<noteq> None \<and> ol \<notin> N"
    if "create_oldLayerMap old w empty_object k = Old ol" for k ol
    using create_oldLayerMap_Old [OF that] assms(1,2) by auto
  moreover have "create_oldLayerMap old w empty_object (layer_id (layer_at w x)) \<noteq> Inherited"
    if "x \<in> N" for x
    using that assms(3) by (simp add: create_oldLayerMap_Inherited)
  ultimately show ?thesis unfolding match_ok_def by simp
qed

text \<open>
  C7, as the code has it. When every layer of the live forest holds state, no layer
  object of the new forest is one of the live forest, and no id in the new forest is a
  property name that the lookup object inherits, no sanity check of the state transfer
  fails, and the forest \<^verbatim>\<open>updateLayers\<close> installs is the depth-first, left-to-right
  flattening of the new forest.
\<close>

theorem generated_forest_is_flattening:
  assumes "\<forall>ol \<in> set (layers m). state (layer_at w ol) \<noteq> None"
    and "set (flatten_forest newLayers) \<inter> set (layers m) = {}"
    and "\<forall>r \<in> set (flatten_forest newLayers).
        layer_id (layer_at w r) \<notin> set Object_prototype_keys"
  shows "layers (fst (snd (updateLayers newLayers m w))) = flatten_forest newLayers"
proof -
  define nl where "nl = filter (\<lambda>newLayer. newLayer \<noteq> None) newLayers"
  define w0 where "w0 = set_contexts nl w"
  define mt0 where "mt0 = \<lparr>oldLayerMap = create_oldLayerMap (layers m) w0 empty_object,
      generatedLayers = [], store = w0\<rparr>"
  have f: "flatten_forest nl = flatten_forest newLayers"
    unfolding nl_def by (rule flatten_forest_filter)
  have ids: "layer_id (layer_at w0 x) = layer_id (layer_at w x)" for x
    unfolding w0_def by (rule same_static_layer_id [OF same_static_set_contexts])
  have "match_ok (\<lambda>x. layer_id (layer_at w0 x)) (set (flatten_forest nl)) mt0"
    unfolding mt0_def
    by (rule initial_match_ok) (use assms f ids in \<open>simp_all add: w0_def\<close>)
  from matching_generated [OF this subset_refl]
  have "generatedLayers (snd (matchSublayers nl mt0)) = flatten_forest newLayers"
    by (simp add: mt0_def f)
  then show ?thesis
    by (simp add: updateLayers_unfold updateLayers_internal_unfold Let_def nl_def w0_def mt0_def)
qed

text \<open>
  C9, as the code has it. When the lookup gives a new layer an old layer without state,
  or the layer object itself, the \<^verbatim>\<open>AssertionError\<close> is caught by the \<^verbatim>\<open>catch\<close> of the
  loop body: it becomes the error \<^verbatim>\<open>_matchSublayers\<close> returns, the layer is left out
  (not initialised, not rendered, not in the generated forest; only its context is set
  and its slot consumed), and the rest of the list is matched as usual.
\<close>

theorem sanity_failure_is_deferred:
  assumes "oldLayerMap mt (layer_id (layer_at (store mt) r)) = Old ol"
    and "state (layer_at (store mt) ol) = None \<or> ol = r"
  shows "\<exists>msg. matchSublayers (Some (Layer r sublayers) # rest) mt =
     (Some (AssertionError msg),
      snd (matchSublayers rest
        (mt\<lparr>oldLayerMap := (oldLayerMap mt)(layer_id (layer_at (store mt) r) := Null_slot),
            store := set_layer r (\<lambda>l. l\<lparr>has_context := True\<rparr>) (store mt)\<rparr>)))"
proof -
  have "\<exists>msg. transferLayerState ol r (with_context r (store mt)) = Inl (AssertionError msg)"
    using assms(2) by (auto simp: transferLayerState_def split: option.splits)
  then obtain msg where "transfer_result r mt = Inl (AssertionError msg)"
    using assms(1) by (auto simp: transfer_result_def)
  then have "matchLayer (Layer r sublayers) mt = (Some (AssertionError msg), skipped r mt)"
    by (simp add: matchLayer_unfold)
  then have "matchSublayers (Some (Layer r sublayers) # rest) mt =
      (Some (AssertionError msg), snd (matchSublayers rest (skipped r mt)))"
    by (simp add: matchSublayers_Cons or_else_def)
  moreover have "assign_null (layer_id (layer_at (store mt) r)) (oldLayerMap mt) =
      (oldLayerMap mt)(layer_id (layer_at (store mt) r) := Null_slot)"
    by (rule assign_null_other) (simp add: assms(1))
  ultimately show ?thesis by (auto simp: skipped_def with_context_def)
qed

subsection \<open>Resubmitted forests\<close>

lemma entered_old_inv:
  assumes ok: "match_ok idf N mt" and r: "r \<in> N" and tr: "transfer_result r mt = Inr w1"
    and dis: "set old \<inter> N = {}" and inv: "old_inv idf old mt"
  shows "old_inv idf old (entered r w1 mt)"
  unfolding old_inv_def
proof
  fix ol
  assume ol: "ol \<in> set old"
  then have ne: "ol \<noteq> r" using dis r by auto
  have key: "layer_id (layer_at (store mt) r) = idf r" by (rule match_ok_ids [OF ok])
  have an: "assign_null (idf r) (oldLayerMap mt) = (oldLayerMap mt)(idf r := Null_slot)"
    using match_ok_assign_null [OF ok r] by (simp add: key)
  from inv ol have c: "(oldLayerMap mt (idf ol) = Old ol \<and> state (layer_at (store mt) ol) \<noteq> None) \<or>
        (oldLayerMap mt (idf ol) = Null_slot \<and> state (layer_at (store mt) ol) = None)"
    by (simp add: old_inv_def)
  show "(oldLayerMap (entered r w1 mt) (idf ol) = Old ol \<and>
          state (layer_at (store (entered r w1 mt)) ol) \<noteq> None) \<or>
        (oldLayerMap (entered r w1 mt) (idf ol) = Null_slot \<and>
          state (layer_at (store (entered r w1 mt)) ol) = None)"
  proof (cases "oldLayerMap mt (idf r) = Old ol")
    case True
    from match_ok_Old [OF ok True] have "idf ol = idf r" by simp
    moreover have "state (layer_at (store (entered r w1 mt)) ol) = None"
      using True key ne tr
      by (simp add: entered_store initializeNewLayer_layer_at transfer_result_layer_at)
    ultimately show ?thesis by (simp add: key an)
  next
    case False
    then have same: "layer_at (store (entered r w1 mt)) ol = layer_at (store mt) ol"
      using entered_other_layer [OF tr ne] key by simp
    from c show ?thesis
    proof
      assume a: "oldLayerMap mt (idf ol) = Old ol \<and> state (layer_at (store mt) ol) \<noteq> None"
      with False have "idf ol \<noteq> idf r" by auto
      with a same show ?thesis by (simp add: key an)
    next
      assume "oldLayerMap mt (idf ol) = Null_slot \<and> state (layer_at (store mt) ol) = None"
      with same show ?thesis by (simp add: key an)
    qed
  qed
qed

lemma matching_old_inv:
  assumes "match_ok idf N mt" and "set (flatten_forest ts) \<subseteq> N" and dis: "set old \<inter> N = {}"
  shows "old_inv idf old mt \<longrightarrow> old_inv idf old (snd (matchSublayers ts mt))"
  using assms(1,2)
proof (induction rule: match_ok_induct)
  case (Nil mt)
  show ?case by simp
next
  case (Hole ts mt)
  then show ?case by simp
next
  case (Cons t ts mt)
  then show ?case by simp
next
  case (Layer r sublayers mt w1)
  show ?case
  proof
    assume "old_inv idf old mt"
    from entered_old_inv [OF Layer(1,2,3) dis this] Layer(3) Layer.IH
    show "old_inv idf old (snd (matchSublayers [Some (Layer r sublayers)] mt))"
      by (cases sublayers) (auto simp: matchLayer_unfold)
  qed
qed

lemma entered_matched:
  assumes ok: "match_ok idf N mt" and r: "r \<in> N" and tr: "transfer_result r mt = Inr w1"
    and slot: "oldLayerMap mt (idf r) = Old ol"
  shows "calls (store (entered r w1 mt)) = calls (store mt) @ [Render r]"
    and "good (store (entered r w1 mt)) r"
    and "x \<in> N \<Longrightarrow> good (store mt) x \<Longrightarrow> good (store (entered r w1 mt)) x"
proof -
  have key: "layer_id (layer_at (store mt) r) = idf r" by (rule match_ok_ids [OF ok])
  from match_ok_Old [OF ok slot] r have o: "state (layer_at (store mt) ol) \<noteq> None" "ol \<noteq> r" "ol \<notin> N"
    by auto
  have w1r: "layer_at w1 r = (layer_at (store mt) r)
             \<lparr>state := state (layer_at (store mt) ol),
              oldProps := Some (props (layer_at (store mt) ol)), has_context := True\<rparr>"
    using transfer_result_layer_at [OF tr, of r] slot key o(2) by simp
  then have st: "state (layer_at w1 r) \<noteq> None" using o(1) by simp
  then have init: "snd (initializeNewLayer r w1) = w1"
    by (simp add: initializeNewLayer_has_state)
  show "calls (store (entered r w1 mt)) = calls (store mt) @ [Render r]"
    by (simp add: entered_store init transfer_result_calls [OF tr])
  show "good (store (entered r w1 mt)) r"
    using st w1r by (simp add: entered_store good_def init)
  show "good (store (entered r w1 mt)) x" if "x \<in> N" "good (store mt) x"
  proof (cases "x = r")
    case True
    then show ?thesis using st w1r by (simp add: entered_store good_def init)
  next
    case False
    moreover have "oldLayerMap mt (layer_id (layer_at (store mt) r)) \<noteq> Old x"
      using slot key o(3) that(1) by auto
    ultimately have "layer_at (store (entered r w1 mt)) x = layer_at (store mt) x"
      by (rule entered_other_layer [OF tr])
    with that(2) show ?thesis by (simp add: good_def)
  qed
qed

lemma matching_all_matched:
  assumes "match_ok idf N mt" and "set (flatten_forest ts) \<subseteq> N"
  shows "distinct (map idf (flatten_forest ts)) \<longrightarrow>
     (\<forall>r \<in> set (flatten_forest ts). \<exists>ol. oldLayerMap mt (idf r) = Old ol) \<longrightarrow>
     calls (store (snd (matchSublayers ts mt))) = calls (store mt) @ map Render (flatten_forest ts) \<and>
     (\<forall>x \<in> N. x \<in> set (flatten_forest ts) \<or> good (store mt) x \<longrightarrow>
        good (store (snd (matchSublayers ts mt))) x)"
  using assms
proof (induction rule: match_ok_induct)
  case (Nil mt)
  show ?case by simp
next
  case (Hole ts mt)
  then show ?case by simp
next
  case (Cons t ts mt)
  show ?case
  proof (intro impI)
    assume d: "distinct (map idf (flatten_forest (Some t # ts)))"
      and s: "\<forall>r \<in> set (flatten_forest (Some t # ts)). \<exists>ol. oldLayerMap mt (idf r) = Old ol"
    let ?mt1 = "snd (matchLayer t mt)"
    from d have d1: "distinct (map idf (flatten_layer t))" and d2: "distinct (map idf (flatten_forest ts))"
      and d3: "idf ` set (flatten_layer t) \<inter> idf ` set (flatten_forest ts) = {}"
      by auto
    have p1: "distinct (map idf (flatten_forest [Some t]))" using d1 by simp
    have q1: "\<forall>r \<in> set (flatten_forest [Some t]). \<exists>ol. oldLayerMap mt (idf r) = Old ol"
      using s by simp
    from Cons(5) p1 q1
    have c1: "calls (store (snd (matchSublayers [Some t] mt))) =
          calls (store mt) @ map Render (flatten_forest [Some t]) \<and>
        (\<forall>x \<in> N. x \<in> set (flatten_forest [Some t]) \<or> good (store mt) x \<longrightarrow>
          good (store (snd (matchSublayers [Some t] mt))) x)"
      by blast
    have h1: "calls (store ?mt1) = calls (store mt) @ map Render (flatten_layer t)"
      using c1 by simp
    have g1: "\<forall>x \<in> N. x \<in> set (flatten_layer t) \<or> good (store mt) x \<longrightarrow> good (store ?mt1) x"
      using c1 by simp
    have m1: "oldLayerMap ?mt1 = (\<lambda>k. if k \<in> idf ` set (flatten_layer t) then Null_slot else oldLayerMap mt k)"
      using matching_generated [OF Cons(1), of "[Some t]"] Cons(2) by simp
    have s2: "\<forall>r \<in> set (flatten_forest ts). \<exists>ol. oldLayerMap ?mt1 (idf r) = Old ol"
    proof
      fix x
      assume x: "x \<in> set (flatten_forest ts)"
      then have "idf x \<notin> idf ` set (flatten_layer t)" using d3 by blast
      moreover from s x have "\<exists>ol. oldLayerMap mt (idf x) = Old ol" by simp
      ultimately show "\<exists>ol. oldLayerMap ?mt1 (idf x) = Old ol" by (simp add: m1)
    qed
    from Cons(6) d2 s2
    have c2: "calls (store (snd (matchSublayers ts ?mt1))) =
          calls (store ?mt1) @ map Render (flatten_forest ts) \<and>
        (\<forall>x \<in> N. x \<in> set (flatten_forest ts) \<or> good (store ?mt1) x \<longrightarrow>
          good (store (snd (matchSublayers ts ?mt1))) x)"
      by blast
    show "calls (store (snd (matchSublayers (Some t # ts) mt))) =
        calls (store mt) @ map Render (flatten_forest (Some t # ts)) \<and>
        (\<forall>x \<in> N. x \<in> set (flatten_forest (Some t # ts)) \<or> good (store mt) x \<longrightarrow>
          good (store (snd (matchSublayers (Some t # ts) mt))) x)"
    proof
      show "calls (store (snd (matchSublayers (Some t # ts) mt))) =
        calls (store mt) @ map Render (flatten_forest (Some t # ts))"
        using c2 h1 by simp
      show "\<forall>x \<in> N. x \<in> set (flatten_forest (Some t # ts)) \<or> good (store mt) x \<longrightarrow>
          good (store (snd (matchSublayers (Some t # ts) mt))) x"
      proof (intro ballI impI)
        fix x
        assume x: "x \<in> N"
          and c: "x \<in> set (flatten_forest (Some t # ts)) \<or> good (store mt) x"
        from c have "x \<in> set (flatten_forest ts) \<or> x \<in> set (flatten_layer t) \<or> good (store mt) x"
          by auto
        then have "x \<in> set (flatten_forest ts) \<or> good (store ?mt1) x"
          using g1 x by blast
        with c2 x have "good (store (snd (matchSublayers ts ?mt1))) x" by blast
        then show "good (store (snd (matchSublayers (Some t # ts) mt))) x" by simp
      qed
    qed
  qed
next
  case (Layer r sublayers mt w1)
  show ?case
  proof (intro impI)
    assume d: "distinct (map idf (flatten_forest [Some (Layer r sublayers)]))"
      and s: "\<forall>x \<in> set (flatten_forest [Some (Layer r sublayers)]). \<exists>ol. oldLayerMap mt (idf x) = Old ol"
    from s obtain ol where slot: "oldLayerMap mt (idf r) = Old ol" by auto
    note e = entered_matched [OF Layer(1,2,3) slot]
    have key: "layer_id (layer_at (store mt) r) = idf r" by (rule match_ok_ids [OF Layer(1)])
    let ?e = "entered r w1 mt"
    have res: "snd (matchSublayers [Some (Layer r sublayers)] mt) =
        (case sublayers of Single t \<Rightarrow> snd (matchSublayers [Some t] ?e)
          | Array ts \<Rightarrow> snd (matchSublayers ts ?e) | _ \<Rightarrow> ?e)"
      using Layer(3) by (cases sublayers) (simp_all add: matchLayer_unfold)
    have kids: "calls (store (snd (matchSublayers cs ?e))) = calls (store ?e) @ map Render (flatten_forest cs) \<and>
        (\<forall>x \<in> N. x \<in> set (flatten_forest cs) \<or> good (store ?e) x \<longrightarrow>
          good (store (snd (matchSublayers cs ?e))) x)"
      if ih: "distinct (map idf (flatten_forest cs)) \<longrightarrow>
         (\<forall>r \<in> set (flatten_forest cs). \<exists>ol. oldLayerMap ?e (idf r) = Old ol) \<longrightarrow>
         calls (store (snd (matchSublayers cs ?e))) = calls (store ?e) @ map Render (flatten_forest cs) \<and>
         (\<forall>x \<in> N. x \<in> set (flatten_forest cs) \<or> good (store ?e) x \<longrightarrow>
            good (store (snd (matchSublayers cs ?e))) x)"
        and fl: "flatten_layer (Layer r sublayers) = r # flatten_forest cs" for cs
    proof -
      from d fl have dc: "distinct (map idf (flatten_forest cs))" and nr: "idf r \<notin> idf ` set (flatten_forest cs)"
        by auto
      from nr have nr': "\<forall>x \<in> set (flatten_forest cs). idf x \<noteq> idf r" by (metis imageI)
      from s fl have "\<forall>x \<in> set (flatten_forest cs). \<exists>ol. oldLayerMap mt (idf x) = Old ol"
        by simp
      with nr' have "\<forall>x \<in> set (flatten_forest cs). \<exists>ol. oldLayerMap ?e (idf x) = Old ol"
        by (simp add: key)
      with ih dc show ?thesis by blast
    qed
    have wrap: "calls (store mtR) = calls (store mt) @ map Render (r # cs) \<and>
        (\<forall>x \<in> N. x \<in> set (r # cs) \<or> good (store mt) x \<longrightarrow> good (store mtR) x)"
      if k1: "calls (store mtR) = calls (store ?e) @ map Render cs"
        and k2: "\<forall>x \<in> N. x \<in> set cs \<or> good (store ?e) x \<longrightarrow> good (store mtR) x"
      for mtR cs
    proof
      show "calls (store mtR) = calls (store mt) @ map Render (r # cs)"
        by (simp add: k1 e(1))
      show "\<forall>x \<in> N. x \<in> set (r # cs) \<or> good (store mt) x \<longrightarrow> good (store mtR) x"
      proof (intro ballI impI)
        fix x
        assume x: "x \<in> N" and c: "x \<in> set (r # cs) \<or> good (store mt) x"
        have "x \<in> set cs \<or> good (store ?e) x"
          using c e(2) e(3) [OF x] by auto
        with k2 x show "good (store mtR) x" by blast
      qed
    qed
    show "calls (store (snd (matchSublayers [Some (Layer r sublayers)] mt))) =
        calls (store mt) @ map Render (flatten_forest [Some (Layer r sublayers)]) \<and>
        (\<forall>x \<in> N. x \<in> set (flatten_forest [Some (Layer r sublayers)]) \<or> good (store mt) x \<longrightarrow>
          good (store (snd (matchSublayers [Some (Layer r sublayers)] mt))) x)"
    proof (cases sublayers)
      case (Raises err)
      with res have r': "snd (matchSublayers [Some (Layer r sublayers)] mt) = ?e" by simp
      have f: "flatten_forest [Some (Layer r sublayers)] = r # []" using Raises by simp
      show ?thesis unfolding r' f by (rule wrap) simp_all
    next
      case Null
      with res have r': "snd (matchSublayers [Some (Layer r sublayers)] mt) = ?e" by simp
      have f: "flatten_forest [Some (Layer r sublayers)] = r # []" using Null by simp
      show ?thesis unfolding r' f by (rule wrap) simp_all
    next
      case (Single t)
      have fl: "flatten_layer (Layer r sublayers) = r # flatten_forest [Some t]"
        using Single by simp
      from Layer.IH have ih: "distinct (map idf (flatten_forest [Some t])) \<longrightarrow>
         (\<forall>r \<in> set (flatten_forest [Some t]). \<exists>ol. oldLayerMap ?e (idf r) = Old ol) \<longrightarrow>
         calls (store (snd (matchSublayers [Some t] ?e))) =
           calls (store ?e) @ map Render (flatten_forest [Some t]) \<and>
         (\<forall>x \<in> N. x \<in> set (flatten_forest [Some t]) \<or> good (store ?e) x \<longrightarrow>
            good (store (snd (matchSublayers [Some t] ?e))) x)"
        by (simp only: Single rendered.case)
      note k = kids [OF ih fl]
      from res have r': "snd (matchSublayers [Some (Layer r sublayers)] mt) =
          snd (matchSublayers [Some t] ?e)" by (simp only: Single rendered.case)
      have f: "flatten_forest [Some (Layer r sublayers)] = r # flatten_forest [Some t]"
        using Single by simp
      show ?thesis unfolding r' f by (rule wrap [OF conjunct1 [OF k] conjunct2 [OF k]])
    next
      case (Array ts)
      have fl: "flatten_layer (Layer r sublayers) = r # flatten_forest ts"
        using Array by simp
      from Layer.IH have ih: "distinct (map idf (flatten_forest ts)) \<longrightarrow>
         (\<forall>r \<in> set (flatten_forest ts). \<exists>ol. oldLayerMap ?e (idf r) = Old ol) \<longrightarrow>
         calls (store (snd (matchSublayers ts ?e))) =
           calls (store ?e) @ map Render (flatten_forest ts) \<and>
         (\<forall>x \<in> N. x \<in> set (flatten_forest ts) \<or> good (store ?e) x \<longrightarrow>
            good (store (snd (matchSublayers ts ?e))) x)"
        by (simp only: Array rendered.case)
      note k = kids [OF ih fl]
      from res have r': "snd (matchSublayers [Some (Layer r sublayers)] mt) =
          snd (matchSublayers ts ?e)" by (simp only: Array rendered.case)
      have f: "flatten_forest [Some (Layer r sublayers)] = r # flatten_forest ts"
        using Array by simp
      show ?thesis unfolding r' f by (rule wrap [OF conjunct1 [OF k] conjunct2 [OF k]])
    qed
  qed
qed

lemma finalizeOldLayers_nothing:
  "\<forall>r \<in> set rs. state (layer_at w r) = None \<Longrightarrow> finalizeOldLayers rs None w = (None, w)"
  by (induction rs) (simp_all add: finalizeLayer_def)

lemma initializeNewLayers_nothing:
  "\<forall>r \<in> set rs. state (layer_at w r) \<noteq> None \<Longrightarrow> initializeNewLayers rs None w = (None, w)"
  by (induction rs) (simp_all add: initializeNewLayer_has_state)

lemma updateMatchedLayers_all:
  "\<forall>r \<in> set rs. oldProps (layer_at w r) \<noteq> None \<and> updateLayer_raises (layer_at w r) = None \<Longrightarrow>
     updateMatchedLayers rs None w = (None, w\<lparr>calls := calls w @ map Update rs\<rparr>)"
proof (induction rs arbitrary: w)
  case Nil
  show ?case by simp
next
  case (Cons r rs)
  have u: "updateLayer r w = (None, record_call (Update r) w)"
    using Cons.prems by (auto simp: updateLayer_def)
  have "\<forall>x \<in> set rs. oldProps (layer_at (record_call (Update r) w) x) \<noteq> None \<and>
      updateLayer_raises (layer_at (record_call (Update r) w) x) = None"
    using Cons.prems by simp
  from Cons.IH [OF this] u show ?case by (simp add: record_call_def)
qed

lemma updateLayer_layer_at: "layer_at (snd (updateLayer r w)) = layer_at w"
  by (auto simp: updateLayer_def record_call_def split: option.splits)

lemma updateMatchedLayers_layer_at:
  "layer_at (snd (updateMatchedLayers rs error w)) = layer_at w"
proof (induction rs arbitrary: error w)
  case Nil
  show ?case by simp
next
  case (Cons r rs)
  show ?case
  proof (cases error)
    case None
    obtain e w1 where f: "updateLayer r w = (e, w1)" by (cases "updateLayer r w")
    then have "layer_at w1 = layer_at w" using updateLayer_layer_at [of r w] by simp
    with Cons.IH [of e w1] show ?thesis using None f by simp
  next
    case (Some e)
    then show ?thesis using Cons.IH [of "Some e" w] by simp
  qed
qed

lemma updateMatchedLayers_updates:
  "\<exists>us. calls (snd (updateMatchedLayers rs error w)) = calls w @ map Update us \<and> set us \<subseteq> set rs"
proof (induction rs arbitrary: error w)
  case Nil
  show ?case by simp
next
  case (Cons r rs)
  show ?case
  proof (cases error)
    case (Some e)
    from Cons [of "Some e" w] obtain us where
      "calls (snd (updateMatchedLayers rs (Some e) w)) = calls w @ map Update us" "set us \<subseteq> set rs"
      by blast
    then have "calls (snd (updateMatchedLayers (r # rs) error w)) = calls w @ map Update us \<and>
        set us \<subseteq> set (r # rs)"
      using Some by auto
    then show ?thesis by blast
  next
    case None
    obtain e w1 where f: "updateLayer r w = (e, w1)" by (cases "updateLayer r w")
    define u0 where "u0 = (if oldProps (layer_at w r) = None then [] else [r])"
    have c1: "calls w1 = calls w @ map Update u0"
      using calls_updateLayer [of r w] f by (simp add: u0_def)
    from Cons [of e w1] obtain us where
      u: "calls (snd (updateMatchedLayers rs e w1)) = calls w1 @ map Update us" "set us \<subseteq> set rs"
      by blast
    have "calls (snd (updateMatchedLayers (r # rs) error w)) = calls w @ map Update (u0 @ us) \<and>
        set (u0 @ us) \<subseteq> set (r # rs)"
      using None f u c1 by (auto simp: u0_def)
    then show ?thesis by blast
  qed
qed

lemma create_oldLayerMap_find:
  "create_oldLayerMap old w m0 k =
     (case m0 k of
        Old ol \<Rightarrow> Old ol
      | Inherited \<Rightarrow> Inherited
      | _ \<Rightarrow> (case find (\<lambda>ol. layer_id (layer_at w ol) = k) old of
                Some ol \<Rightarrow> Old ol | None \<Rightarrow> m0 k))"
proof (induction old arbitrary: m0)
  case Nil
  show ?case by (simp split: slot.splits)
next
  case (Cons a old)
  show ?case
    by (cases "m0 (layer_id (layer_at w a))") (auto simp: Cons split: slot.splits option.splits)
qed

lemma find_distinct:
  "distinct (map f xs) \<Longrightarrow> x \<in> set xs \<Longrightarrow> find (\<lambda>y. f y = f x) xs = Some x"
  by (induction xs) (auto simp: image_iff)

lemma find_in_image:
  "k \<in> f ` set xs \<Longrightarrow> \<exists>x. find (\<lambda>y. f y = k) xs = Some x"
  by (induction xs) auto

lemma initial_old_inv:
  assumes "\<forall>ol \<in> set old. state (layer_at w ol) \<noteq> None"
    and "distinct (map (\<lambda>x. layer_id (layer_at w x)) old)"
    and "\<forall>ol \<in> set old. layer_id (layer_at w ol) \<notin> set Object_prototype_keys"
  shows "old_inv (\<lambda>x. layer_id (layer_at w x)) old
     \<lparr>oldLayerMap = create_oldLayerMap old w empty_object, generatedLayers = [], store = w\<rparr>"
  unfolding old_inv_def using assms
  by (simp add: create_oldLayerMap_find empty_object_def
      find_distinct [where f = "\<lambda>x. layer_id (layer_at w x)"])

text \<open>
  C8, as the code has it. The live forest holds state and has distinct ids; the new
  forest consists of other layer objects, and its flattening has the same ids, each
  once; none of the ids is a property name that the lookup object inherits. Then \<^verbatim>\<open>updateLayers\<close> calls no \<^verbatim>\<open>initializeLayer\<close> and no \<^verbatim>\<open>finalizeLayer\<close>:
  its calls are the \<^verbatim>\<open>renderLayers\<close> of every layer, in the order of the flattening,
  followed by \<^verbatim>\<open>updateLayer\<close> calls of layers of the new forest only, which are the
  calls of all its layers when no \<^verbatim>\<open>updateLayer\<close> throws; and it installs the
  flattening.
\<close>

theorem resubmitted_forest_only_updates:
  assumes old_state: "\<forall>ol \<in> set (layers m). state (layer_at w ol) \<noteq> None"
    and old_distinct: "distinct (map (\<lambda>r. layer_id (layer_at w r)) (layers m))"
    and fresh: "set (flatten_forest newLayers) \<inter> set (layers m) = {}"
    and new_distinct: "distinct (map (\<lambda>r. layer_id (layer_at w r)) (flatten_forest newLayers))"
    and same_ids: "(\<lambda>r. layer_id (layer_at w r)) ` set (flatten_forest newLayers) =
        (\<lambda>r. layer_id (layer_at w r)) ` set (layers m)"
    and own_ids: "\<forall>r \<in> set (flatten_forest newLayers).
        layer_id (layer_at w r) \<notin> set Object_prototype_keys"
  shows "\<exists>us. calls_since w (snd (snd (updateLayers newLayers m w))) =
        map Render (flatten_forest newLayers) @ map Update us \<and>
      set us \<subseteq> set (flatten_forest newLayers) \<and>
      ((\<forall>r \<in> set (flatten_forest newLayers). updateLayer_raises (layer_at w r) = None) \<longrightarrow>
         us = flatten_forest newLayers) \<and>
      layers (fst (snd (updateLayers newLayers m w))) = flatten_forest newLayers"
proof -
  define old where "old = layers m"
  define nl where "nl = filter (\<lambda>newLayer. newLayer \<noteq> None) newLayers"
  define F where "F = flatten_forest newLayers"
  define w0 where "w0 = set_contexts nl w"
  define idf where "idf = (\<lambda>x. layer_id (layer_at w0 x))"
  define mt0 where "mt0 = \<lparr>oldLayerMap = create_oldLayerMap old w0 empty_object,
      generatedLayers = [], store = w0\<rparr>"
  define mt1 where "mt1 = snd (matchSublayers nl mt0)"
  define w1 where "w1 = store mt1"
  define w3 where "w3 = snd (updateMatchedLayers F None w1)"
  have f: "flatten_forest nl = F"
    unfolding nl_def F_def by (rule flatten_forest_filter)
  have idf: "idf x = layer_id (layer_at w x)" for x
    unfolding idf_def w0_def by (rule same_static_layer_id [OF same_static_set_contexts])
  have idf_eq: "idf = (\<lambda>x. layer_id (layer_at w x))"
    by (rule ext) (rule idf)
  have st0: "\<forall>ol \<in> set old. state (layer_at w0 ol) \<noteq> None"
    using old_state by (simp add: w0_def old_def)
  have own0: "\<forall>r \<in> set F. layer_id (layer_at w0 r) \<notin> set Object_prototype_keys"
    using own_ids idf by (simp add: F_def idf_def)
  have ok: "match_ok idf (set (flatten_forest nl)) mt0"
    unfolding mt0_def idf_def
    by (rule initial_match_ok [OF st0]) (use fresh f own0 in \<open>simp_all add: F_def old_def\<close>)
  have sub: "set (flatten_forest nl) \<subseteq> set (flatten_forest nl)" by simp
  have dis: "set old \<inter> set (flatten_forest nl) = {}"
    using fresh f by (auto simp: F_def old_def)
  have d_old: "distinct (map (\<lambda>x. layer_id (layer_at w0 x)) old)"
    using old_distinct idf_eq by (simp add: idf_def old_def)
  have d_new: "distinct (map idf (flatten_forest nl))"
    using new_distinct f by (simp add: F_def idf_eq)
  have ids: "idf ` set F = idf ` set old"
    using same_ids by (simp add: F_def old_def idf_eq)
  have own_old: "\<forall>ol \<in> set old. layer_id (layer_at w0 ol) \<notin> set Object_prototype_keys"
  proof
    fix ol
    assume "ol \<in> set old"
    then have "idf ol \<in> idf ` set F" using ids by blast
    then obtain r where "r \<in> set F" "idf ol = idf r" by blast
    with own0 show "layer_id (layer_at w0 ol) \<notin> set Object_prototype_keys"
      by (simp add: idf_def)
  qed
  have inv0: "old_inv idf old mt0"
    unfolding mt0_def idf_def by (rule initial_old_inv [OF st0 d_old own_old])
  have slots: "\<forall>r \<in> set (flatten_forest nl). \<exists>ol. oldLayerMap mt0 (idf r) = Old ol"
  proof
    fix r
    assume "r \<in> set (flatten_forest nl)"
    then have "idf r \<in> idf ` set old" using ids f by auto
    then have "\<exists>x. find (\<lambda>y. layer_id (layer_at w0 y) = idf r) old = Some x"
      unfolding idf_def by (rule find_in_image)
    moreover have "idf r \<notin> set Object_prototype_keys"
      using own0 \<open>r \<in> set (flatten_forest nl)\<close> f by (simp add: idf_def)
    ultimately show "\<exists>ol. oldLayerMap mt0 (idf r) = Old ol"
      by (auto simp: mt0_def create_oldLayerMap_find empty_object_def)
  qed
  from matching_generated [OF ok sub]
  have gen: "generatedLayers mt1 = F"
    and map1: "oldLayerMap mt1 = (\<lambda>k. if k \<in> idf ` set F then Null_slot else oldLayerMap mt0 k)"
    by (simp_all add: mt1_def mt0_def f)
  from matching_old_inv [OF ok sub dis] inv0 have inv1: "old_inv idf old mt1"
    by (simp add: mt1_def)
  from matching_all_matched [OF ok sub] d_new slots
  have calls1: "calls w1 = calls w0 @ map Render F"
    and good1: "\<forall>x \<in> set F. good w1 x"
    by (simp_all add: mt1_def w1_def f mt0_def)
  have old_none: "\<forall>ol \<in> set old. state (layer_at w1 ol) = None"
  proof
    fix ol
    assume ol: "ol \<in> set old"
    then have "oldLayerMap mt1 (idf ol) = Null_slot" using ids by (auto simp: map1)
    with inv1 ol show "state (layer_at w1 ol) = None"
      by (auto simp: old_inv_def w1_def)
  qed
  have static: "same_static w w1"
    unfolding w1_def mt1_def
    using same_static_set_contexts [of w nl] same_static_matching(1) [of mt0 nl]
    by (auto simp: mt0_def w0_def intro: same_static_trans)
  have fin: "finalizeOldLayers old None w1 = (None, w1)"
    by (rule finalizeOldLayers_nothing [OF old_none])
  obtain us where calls3: "calls w3 = calls w1 @ map Update us" and us: "set us \<subseteq> set F"
    using updateMatchedLayers_updates [of F None w1] unfolding w3_def by blast
  have all: "us = F" if no_raise: "\<forall>r \<in> set F. updateLayer_raises (layer_at w r) = None"
  proof -
    have "\<forall>r \<in> set F. oldProps (layer_at w1 r) \<noteq> None \<and> updateLayer_raises (layer_at w1 r) = None"
      using good1 no_raise same_static_update_raises [OF static] by (simp add: good_def)
    then have "updateMatchedLayers F None w1 = (None, w1\<lparr>calls := calls w1 @ map Update F\<rparr>)"
      by (rule updateMatchedLayers_all)
    then have "calls w3 = calls w1 @ map Update F" by (simp add: w3_def)
    with calls3 have "map Update us = map Update F" by simp
    then show ?thesis by (simp add: inj_on_def inj_map_eq_map)
  qed
  have l3: "layer_at w3 = layer_at w1"
    unfolding w3_def by (rule updateMatchedLayers_layer_at)
  have ini: "initializeNewLayers F None w3 = (None, w3)"
    by (rule initializeNewLayers_nothing) (use good1 l3 in \<open>simp add: good_def\<close>)
  have i: "snd (updateLayers_internal old nl w0) =
      (generatedLayers mt1,
       snd (initializeNewLayers (generatedLayers mt1) None
         (snd (updateMatchedLayers (generatedLayers mt1) None
           (snd (finalizeOldLayers old None (store mt1)))))))"
    by (simp only: updateLayers_internal_unfold Let_def mt0_def mt1_def snd_conv)
  have i': "snd (updateLayers_internal old nl w0) = (F, w3)"
    unfolding i gen w1_def [symmetric] by (simp add: fin w3_def [symmetric] ini)
  have u: "snd (updateLayers newLayers m w) =
      (m\<lparr>prevLayers := layers m, layers := fst (snd (updateLayers_internal old nl w0))\<rparr>,
       snd (snd (updateLayers_internal old nl w0)))"
    by (simp only: updateLayers_unfold Let_def nl_def w0_def old_def snd_conv)
  have res: "snd (updateLayers newLayers m w) = (m\<lparr>prevLayers := layers m, layers := F\<rparr>, w3)"
    unfolding u i' by simp
  have "calls_since w (snd (snd (updateLayers newLayers m w))) = map Render F @ map Update us"
    by (simp add: res calls_since_def calls3 calls1 w0_def)
  moreover have "layers (fst (snd (updateLayers newLayers m w))) = F"
    by (simp add: res)
  ultimately show ?thesis
    using us all unfolding F_def by blast
qed

subsection \<open>The theorems at concrete frames\<close>

lemma resubmitted_first:
  "layers (fst (after_first_frame store_resubmitted resubmitted_frame1)) = [0, 1]"
  "map (\<lambda>r. layer_id (layer_at (snd (after_first_frame store_resubmitted resubmitted_frame1)) r))
     [0, 1, 2, 3] = [''p'', ''c'', ''p'', ''c'']"
  "map (\<lambda>r. state (layer_at (snd (after_first_frame store_resubmitted resubmitted_frame1)) r))
     [0, 1] = [Some 0, Some 1]"
  "map (\<lambda>r. updateLayer_raises (layer_at (snd (after_first_frame store_resubmitted resubmitted_frame1)) r))
     [2, 3] = [None, None]"
  by (simp_all add: store_resubmitted_def resubmitted_frame1_def run_defs)

text \<open>The theorem for C8 at the two frames of \<open>store_resubmitted\<close>: a parent and its
  child, shown again with new layer objects.\<close>

theorem resubmitted_forest_only_updates_witness:
  "(let (m1, w1) = after_first_frame store_resubmitted resubmitted_frame1;
        (error2, m2, w2) = updateLayers resubmitted_frame2 m1 w1
    in calls_since w1 w2 = [Render 2, Render 3, Update 2, Update 3] \<and> layers m2 = [2, 3])"
proof -
  obtain m1 w1 where a: "after_first_frame store_resubmitted resubmitted_frame1 = (m1, w1)"
    by (cases "after_first_frame store_resubmitted resubmitted_frame1")
  have fl: "flatten_forest resubmitted_frame2 = [2, 3]"
    by (simp add: resubmitted_frame2_def)
  note facts = resubmitted_first [unfolded a fst_conv snd_conv]
  have "\<exists>us. calls_since w1 (snd (snd (updateLayers resubmitted_frame2 m1 w1))) =
        map Render (flatten_forest resubmitted_frame2) @ map Update us \<and>
      set us \<subseteq> set (flatten_forest resubmitted_frame2) \<and>
      ((\<forall>r \<in> set (flatten_forest resubmitted_frame2). updateLayer_raises (layer_at w1 r) = None) \<longrightarrow>
         us = flatten_forest resubmitted_frame2) \<and>
      layers (fst (snd (updateLayers resubmitted_frame2 m1 w1))) = flatten_forest resubmitted_frame2"
    by (rule resubmitted_forest_only_updates)
      (use facts fl in \<open>auto simp: Object_prototype_keys_def\<close>)
  moreover have "\<forall>r \<in> set (flatten_forest resubmitted_frame2). updateLayer_raises (layer_at w1 r) = None"
    using facts fl by simp
  ultimately have "calls_since w1 (snd (snd (updateLayers resubmitted_frame2 m1 w1))) =
        map Render [2, 3] @ map Update [2, 3] \<and>
      layers (fst (snd (updateLayers resubmitted_frame2 m1 w1))) = [2, 3]"
    unfolding fl by blast
  then show ?thesis
    by (auto simp: a split: prod.splits)
qed

text \<open>The theorem for C7 at the same two frames.\<close>

theorem generated_forest_is_flattening_witness:
  "(let (m1, w1) = after_first_frame store_resubmitted resubmitted_frame1
    in list_all (\<lambda>ol. state (layer_at w1 ol) \<noteq> None) (layers m1) \<and>
       map (\<lambda>r. layer_id (layer_at w1 r)) (flatten_forest resubmitted_frame2) = [''p'', ''c''] \<and>
       layers (fst (snd (updateLayers resubmitted_frame2 m1 w1))) = [2, 3])"
proof -
  obtain m1 w1 where a: "after_first_frame store_resubmitted resubmitted_frame1 = (m1, w1)"
    by (cases "after_first_frame store_resubmitted resubmitted_frame1")
  have fl: "flatten_forest resubmitted_frame2 = [2, 3]"
    by (simp add: resubmitted_frame2_def)
  note facts = resubmitted_first [unfolded a fst_conv snd_conv]
  have "layers (fst (snd (updateLayers resubmitted_frame2 m1 w1))) = flatten_forest resubmitted_frame2"
    by (rule generated_forest_is_flattening)
      (use facts fl in \<open>auto simp: Object_prototype_keys_def\<close>)
  then show ?thesis
    using facts by (auto simp: a fl)
qed

text \<open>The theorem for C2 at the first frame of \<open>frames_add_and_drop\<close>.\<close>

theorem updateLayers_call_order_witness:
  "\<exists>ms fs us ns.
     calls_since store_add_and_drop
       (snd (snd (updateLayers [Some (Layer 0 Null), Some (Layer 1 Null)] manager0 store_add_and_drop))) =
       ms @ map Finalize fs @ map Update us @ map Initialize ns \<and>
     list_all (\<lambda>e. is_Initialize e \<or> is_Render e) ms \<and>
     all_before is_Finalize is_Update
       (calls_since store_add_and_drop
         (snd (snd (updateLayers [Some (Layer 0 Null), Some (Layer 1 Null)] manager0 store_add_and_drop))))"
  by (rule updateLayers_call_order)

text \<open>
  C2 as stated fails: in frame 2 of \<open>frames_add_and_drop\<close> the layer a is matched, b is
  new (reference 3, no old props) and d is dropped. The \<^verbatim>\<open>initializeLayer\<close> of b is
  called during matching, before the \<^verbatim>\<open>finalizeLayer\<close> of d and before the
  \<^verbatim>\<open>updateLayer\<close> of a.
\<close>

theorem update_after_initialize:
  "(let (w1, error, m, w2) = frames_add_and_drop
    in calls_since w1 w2 = [Render 2, Initialize 3, Render 3, Finalize 1, Update 2] \<and>
       oldProps (layer_at w1 3) = None \<and>
       \<not> all_before is_Update is_Initialize (calls_since w1 w2))"
  by (simp add: frames_add_and_drop_def store_add_and_drop_def run_defs is_Update_def
      is_Initialize_def)

lemma init_raises_matching_facts:
  "oldLayerMap init_raises_matching (layer_id (layer_at (store init_raises_matching) 1)) = Old 0"
  "state (layer_at (store init_raises_matching) 0) = None"
  by (simp_all add: init_raises_matching_def store_init_raises_def run_defs)

text \<open>The theorem for C9 at the second frame of \<open>frames_init_raises\<close>: the new layer a
  (reference 1) is paired with the old layer a (reference 0), which has no state.\<close>

theorem sanity_failure_is_deferred_witness:
  "(let r = matchSublayers [Some (Layer 1 Null), Some (Layer 2 Null)] init_raises_matching
    in oldLayerMap init_raises_matching (layer_id (layer_at (store init_raises_matching) 1)) = Old 0 \<and>
       state (layer_at (store init_raises_matching) 0) = None \<and>
       (\<exists>msg. fst r = Some (AssertionError msg)) \<and>
       generatedLayers (snd r) =
         generatedLayers (snd (matchSublayers [Some (Layer 2 Null)]
           (init_raises_matching
              \<lparr>oldLayerMap := (oldLayerMap init_raises_matching)
                 (layer_id (layer_at (store init_raises_matching) 1) := Null_slot),
               store := set_layer 1 (\<lambda>l. l\<lparr>has_context := True\<rparr>) (store init_raises_matching)\<rparr>))))"
proof -
  have d: "state (layer_at (store init_raises_matching) 0) = None \<or> (0::nat) = 1"
    by (simp add: init_raises_matching_facts)
  from sanity_failure_is_deferred [OF init_raises_matching_facts(1) d, of Null "[Some (Layer 2 Null)]"]
  obtain msg where "matchSublayers [Some (Layer 1 Null), Some (Layer 2 Null)] init_raises_matching =
     (Some (AssertionError msg),
      snd (matchSublayers [Some (Layer 2 Null)]
        (init_raises_matching
           \<lparr>oldLayerMap := (oldLayerMap init_raises_matching)
              (layer_id (layer_at (store init_raises_matching) 1) := Null_slot),
            store := set_layer 1 (\<lambda>l. l\<lparr>has_context := True\<rparr>) (store init_raises_matching)\<rparr>)))"
    by blast
  then show ?thesis
    using init_raises_matching_facts by (simp add: Let_def)
qed

text \<open>
  C9 as stated fails: in frame 2 of \<open>frames_init_raises\<close> the new layer a is paired
  with an old layer without state. The pass goes on: the next layer b is initialised
  and rendered and becomes the installed forest, and only then \<^verbatim>\<open>updateLayers\<close> throws
  the \<^verbatim>\<open>AssertionError\<close>.
\<close>

theorem sanity_failure_not_immediate:
  "(let (w1, error, m, w2) = frames_init_raises
    in error = Some (AssertionError ''deck.gl sanity check - Matching layer has no state'') \<and>
       layers m = [2] \<and> calls_since w1 w2 = [Initialize 2, Render 2] \<and>
       state (layer_at w2 2) = Some 0)"
  by (simp add: frames_init_raises_def store_init_raises_def run_defs)

text \<open>
  C7 as stated fails: in the same frame the generated forest is b alone, while the
  flattening of the new forest is a, b.
\<close>

theorem matched_layer_left_out:
  "(let (w1, error, m, w2) = frames_init_raises
    in state (layer_at w1 0) = None \<and> prevLayers m = [0] \<and> layers m = [2] \<and>
       flatten_forest [Some (Layer 1 Null), Some (Layer 2 Null)] = [1, 2] \<and>
       layers m \<noteq> flatten_forest [Some (Layer 1 Null), Some (Layer 2 Null)])"
  by (simp add: frames_init_raises_def store_init_raises_def run_defs)

text \<open>
  Why the ids must not be inherited property names: a new manager is given one layer with
  the id \<^verbatim>\<open>constructor\<close>. The lookup finds the inherited property, the first sanity
  check fails, and the layer is neither initialised nor installed.
\<close>

lemma inherited_id_left_out:
  "(let (error, m, w) =
          updateLayers [Some (Layer 0 Null)] manager0 (store_of [new_Layer ''constructor''])
    in error = Some (AssertionError ''deck.gl sanity check - Matching layer has no state'') \<and>
       layers m = [] \<and> calls w = [] \<and> state (layer_at w 0) = None)"
  by (simp add: run_defs)

text \<open>
  C8 as stated fails: when the very same layer objects are given again, each is paired
  with itself, the sanity check of the state transfer fails, the layers are left out of
  the generated forest and are finalised as dropped layers.
\<close>

theorem same_objects_are_finalized:
  "(let (w1, error, m, w2) = frames_same_objects
    in error = Some (AssertionError ''deck.gl sanity check - Matching layer is same'') \<and>
       layers m = [] \<and> calls_since w1 w2 = [Finalize 0, Finalize 1])"
  by (simp add: frames_same_objects_def store_same_objects_def run_defs)

subsection \<open>Ownership of state objects\<close>

lemma next_state_with_context [simp]: "next_state (with_context r w) = next_state w"
  by (simp add: with_context_def set_layer_def)

lemma next_state_record_call [simp]: "next_state (record_call e w) = next_state w"
  by (simp add: record_call_def)

lemma transferLayerState_next_state:
  "transferLayerState ol r w = Inr w1 \<Longrightarrow> next_state w1 = next_state w"
  by (auto simp: transferLayerState_def Let_def set_layer_def set_state_def
      split: option.splits if_splits)

lemma initializeNewLayer_next_state:
  "next_state (snd (initializeNewLayer r w)) =
     (if state (layer_at w r) = None \<and> initializeLayer_creates_state (layer_at w r)
      then Suc (next_state w) else next_state w)"
  by (auto simp: initializeNewLayer_def call_initializeLayer_def Let_def set_layer_def
      set_state_def record_call_def split: option.splits)

lemma owners_ok_with_context: "owners_ok w \<Longrightarrow> owners_ok (with_context r w)"
  by (simp add: owners_ok_def single_owner_def)

lemma owners_ok_record_call: "owners_ok w \<Longrightarrow> owners_ok (record_call e w)"
  by (simp add: owners_ok_def single_owner_def)

lemma owners_ok_transferLayerState:
  assumes "transferLayerState ol r w = Inr w1" and "owners_ok w"
  shows "owners_ok w1"
  using assms(2) transferLayerState_next_state [OF assms(1)]
  unfolding owners_ok_def single_owner_def
  by (auto simp: transferLayerState_layer_at [OF assms(1)] split: if_splits)

lemma owners_ok_initializeNewLayer:
  assumes "owners_ok w"
  shows "owners_ok (snd (initializeNewLayer r w))"
  using assms unfolding owners_ok_def single_owner_def
  by (auto simp: initializeNewLayer_layer_at initializeNewLayer_next_state split: if_splits)
    (metis less_irrefl less_SucI)+

lemma finalizeLayer_layer_at:
  "layer_at (snd (finalizeLayer r w)) x =
     (if x = r then (layer_at w r)\<lparr>state := None\<rparr> else layer_at w x)"
  by (auto simp: finalizeLayer_def set_layer_def record_call_def split: option.splits)

lemma finalizeLayer_next_state [simp]: "next_state (snd (finalizeLayer r w)) = next_state w"
  by (auto simp: finalizeLayer_def set_layer_def record_call_def split: option.splits)

declare updateLayer_layer_at [simp]

lemma updateLayer_next_state [simp]: "next_state (snd (updateLayer r w)) = next_state w"
  by (auto simp: updateLayer_def record_call_def split: option.splits)

lemma owners_ok_finalizeLayer: "owners_ok w \<Longrightarrow> owners_ok (snd (finalizeLayer r w))"
  unfolding owners_ok_def single_owner_def
  by (auto simp: finalizeLayer_layer_at split: if_splits)

lemma owners_ok_updateLayer: "owners_ok w \<Longrightarrow> owners_ok (snd (updateLayer r w))"
  unfolding owners_ok_def single_owner_def by simp

lemma owners_ok_transfer_result:
  "transfer_result r mt = Inr w1 \<Longrightarrow> owners_ok (store mt) \<Longrightarrow> owners_ok w1"
  by (auto simp: transfer_result_def owners_ok_with_context
      intro: owners_ok_transferLayerState split: slot.splits)

lemma owners_ok_entered:
  "transfer_result r mt = Inr w1 \<Longrightarrow> owners_ok (store mt) \<Longrightarrow>
     owners_ok (store (entered r w1 mt))"
  by (simp add: entered_store owners_ok_record_call owners_ok_initializeNewLayer
      owners_ok_transfer_result)

lemma owners_ok_matching:
  shows "owners_ok (store mt) \<longrightarrow> owners_ok (store (snd (matchSublayers ts mt)))"
    and "owners_ok (store mt) \<longrightarrow> owners_ok (store (snd (matchLayer t mt)))"
proof (induction ts mt and t mt rule: match_induct)
  case (Nil mt)
  show ?case by simp
next
  case (Hole ts mt)
  then show ?case by simp
next
  case (Cons t ts mt)
  then show ?case by simp
next
  case (Layer r sublayers mt)
  show ?case
  proof (cases "transfer_result r mt")
    case (Inl err)
    then show ?thesis by (simp add: matchLayer_unfold owners_ok_with_context)
  next
    case (Inr w1)
    note e = owners_ok_entered [OF Inr]
    show ?thesis
    proof (cases sublayers)
      case (Single t)
      with Layer(1) [OF Single Inr] Inr e show ?thesis by (simp add: matchLayer_unfold)
    next
      case (Array ts)
      with Layer(2) [OF Array Inr] Inr e show ?thesis by (simp add: matchLayer_unfold)
    qed (use Inr e in \<open>simp_all add: matchLayer_unfold\<close>)
  qed
qed

lemma owners_ok_finalizeOldLayers:
  "owners_ok w \<Longrightarrow> owners_ok (snd (finalizeOldLayers rs error w))"
proof (induction rs arbitrary: error w)
  case Nil
  then show ?case by simp
next
  case (Cons r rs)
  show ?case
  proof (cases error)
    case None
    obtain e w1 where f: "finalizeLayer r w = (e, w1)" by (cases "finalizeLayer r w")
    then have "owners_ok w1" using owners_ok_finalizeLayer [OF Cons.prems, of r] by simp
    from Cons.IH [OF this] show ?thesis using None f by simp
  next
    case (Some e)
    with Cons show ?thesis by simp
  qed
qed

lemma owners_ok_updateMatchedLayers:
  "owners_ok w \<Longrightarrow> owners_ok (snd (updateMatchedLayers rs error w))"
proof (induction rs arbitrary: error w)
  case Nil
  then show ?case by simp
next
  case (Cons r rs)
  show ?case
  proof (cases error)
    case None
    obtain e w1 where f: "updateLayer r w = (e, w1)" by (cases "updateLayer r w")
    then have "owners_ok w1" using owners_ok_updateLayer [OF Cons.prems, of r] by simp
    from Cons.IH [OF this] show ?thesis using None f by simp
  next
    case (Some e)
    with Cons show ?thesis by simp
  qed
qed

lemma owners_ok_initializeNewLayers:
  "owners_ok w \<Longrightarrow> owners_ok (snd (initializeNewLayers rs error w))"
proof (induction rs arbitrary: error w)
  case Nil
  then show ?case by simp
next
  case (Cons r rs)
  obtain e w1 where f: "initializeNewLayer r w = (e, w1)" by (cases "initializeNewLayer r w")
  then have "owners_ok w1" using owners_ok_initializeNewLayer [OF Cons.prems, of r] by simp
  from Cons.IH [OF this] show ?case using f by simp
qed

lemma owners_ok_set_contexts: "owners_ok w \<Longrightarrow> owners_ok (set_contexts ts w)"
proof (induction ts arbitrary: w)
  case Nil
  then show ?case by simp
next
  case (Cons a ts)
  then show ?case by (cases a) (simp_all add: owners_ok_with_context)
qed

lemma owners_ok_updateLayers:
  assumes "owners_ok w"
  shows "owners_ok (snd (snd (updateLayers newLayers m w)))"
proof -
  define nl where "nl = filter (\<lambda>newLayer. newLayer \<noteq> None) newLayers"
  define w0 where "w0 = set_contexts nl w"
  define mt0 where "mt0 = \<lparr>oldLayerMap = create_oldLayerMap (layers m) w0 empty_object,
      generatedLayers = [], store = w0\<rparr>"
  define mt1 where "mt1 = snd (matchSublayers nl mt0)"
  have u: "snd (snd (updateLayers newLayers m w)) =
       snd (initializeNewLayers (generatedLayers mt1) None
         (snd (updateMatchedLayers (generatedLayers mt1) None
           (snd (finalizeOldLayers (layers m) None (store mt1))))))"
    by (simp only: updateLayers_unfold updateLayers_internal_unfold Let_def nl_def w0_def
        mt0_def mt1_def snd_conv)
  have "owners_ok w0" unfolding w0_def by (rule owners_ok_set_contexts [OF assms])
  then have "owners_ok (store mt0)" by (simp add: mt0_def)
  then have "owners_ok (store mt1)" unfolding mt1_def using owners_ok_matching(1) by blast
  then show ?thesis
    unfolding u
    by (intro owners_ok_initializeNewLayers owners_ok_updateMatchedLayers
        owners_ok_finalizeOldLayers)
qed

subsection \<open>The state of a matched layer\<close>

lemma finalizeOldLayers_other:
  "x \<notin> set rs \<Longrightarrow> layer_at (snd (finalizeOldLayers rs error w)) x = layer_at w x"
proof (induction rs arbitrary: error w)
  case Nil
  show ?case by simp
next
  case (Cons r rs)
  show ?case
  proof (cases error)
    case None
    obtain e w1 where f: "finalizeLayer r w = (e, w1)" by (cases "finalizeLayer r w")
    then have "layer_at w1 x = layer_at w x"
      using finalizeLayer_layer_at [of r w x] Cons.prems by simp
    moreover have "layer_at (snd (finalizeOldLayers rs e w1)) x = layer_at w1 x"
      using Cons.IH [of e w1] Cons.prems by simp
    ultimately show ?thesis using None f by simp
  next
    case (Some e)
    then show ?thesis using Cons.IH [of "Some e" w] Cons.prems by simp
  qed
qed

lemma finalizeOldLayers_stateless:
  "state (layer_at w x) = None \<Longrightarrow> state (layer_at (snd (finalizeOldLayers rs error w)) x) = None"
proof (induction rs arbitrary: error w)
  case Nil
  then show ?case by simp
next
  case (Cons r rs)
  show ?case
  proof (cases error)
    case None
    obtain e w1 where f: "finalizeLayer r w = (e, w1)" by (cases "finalizeLayer r w")
    then have "state (layer_at w1 x) = None"
      using finalizeLayer_layer_at [of r w x] Cons.prems by (simp split: if_splits)
    from Cons.IH [OF this] show ?thesis using None f by simp
  next
    case (Some e)
    then show ?thesis using Cons.IH [OF Cons.prems, of "Some e"] by simp
  qed
qed

lemma initializeNewLayers_other:
  "state (layer_at w x) \<noteq> None \<or> x \<notin> set rs \<Longrightarrow>
     layer_at (snd (initializeNewLayers rs error w)) x = layer_at w x"
proof (induction rs arbitrary: error w)
  case Nil
  show ?case by simp
next
  case (Cons r rs)
  obtain e w1 where f: "initializeNewLayer r w = (e, w1)" by (cases "initializeNewLayer r w")
  have a: "layer_at w1 x = layer_at w x"
    using initializeNewLayer_layer_at [of r w x] f Cons.prems by auto
  then have "state (layer_at w1 x) \<noteq> None \<or> x \<notin> set rs" using Cons.prems by auto
  from Cons.IH [OF this] a show ?case using f by simp
qed

text \<open>The state object of one old layer through a matching pass in which the sanity
  checks of other layers may fail.\<close>

lemma find_append_first:
  "find P (xs @ ys) = (case find P xs of None \<Rightarrow> find P ys | Some x \<Rightarrow> Some x)"
  by (induction xs) auto

lemma find_Some_holds: "find P xs = Some x \<Longrightarrow> x \<in> set xs \<and> P x"
  by (induction xs) (auto split: if_splits)

lemma find_None_image: "k \<notin> f ` set xs \<Longrightarrow> find (\<lambda>x. f x = k) xs = None"
  by (induction xs) auto

lemma entered_keeps_state:
  assumes "transfer_result r mt = Inr w1"
    and "\<forall>y. oldLayerMap mt (layer_id (layer_at (store mt) r)) \<noteq> Old y"
    and "state (layer_at (store mt) x) = Some s"
  shows "state (layer_at (store (entered r w1 mt)) x) = Some s"
  using assms
  by (auto simp: entered_store initializeNewLayer_layer_at transfer_result_layer_at
      layer_at_with_context split: slot.splits)

lemma lineage_skipped:
  assumes L: "lineage idf k ol s mt" and ne: "r \<noteq> ol" and tr: "transfer_result r mt = Inl err"
  shows "lineage idf k ol s (skipped r mt)"
proof -
  from L have ids: "\<And>x. layer_id (layer_at (store mt) x) = idf x"
    and olds: "\<And>j x. oldLayerMap mt j = Old x \<Longrightarrow> idf x = j"
    and olk: "idf ol = k" and olg: "ol \<notin> set (generatedLayers mt)"
    and ph: "(oldLayerMap mt k = Old ol \<and> state (layer_at (store mt) ol) = Some s \<and>
         k \<notin> idf ` set (generatedLayers mt)) \<or>
      (oldLayerMap mt k = Null_slot \<and> state (layer_at (store mt) ol) = None \<and>
         (\<exists>r. find (\<lambda>x. idf x = k) (generatedLayers mt) = Some r \<and>
              state (layer_at (store mt) r) = Some s))"
    by (simp_all add: lineage_def)
  have nk: "idf r \<noteq> k"
  proof
    assume eq: "idf r = k"
    from ph show False
    proof
      assume a: "oldLayerMap mt k = Old ol \<and> state (layer_at (store mt) ol) = Some s \<and>
         k \<notin> idf ` set (generatedLayers mt)"
      with ne have "state (layer_at (with_context r (store mt)) ol) \<noteq> None \<and> ol \<noteq> r" by auto
      then obtain w1 where "transferLayerState ol r (with_context r (store mt)) = Inr w1"
        using transferLayerState_Inr_iff by blast
      with a eq tr show False by (simp add: transfer_result_def ids)
    next
      assume "oldLayerMap mt k = Null_slot \<and> state (layer_at (store mt) ol) = None \<and>
         (\<exists>r. find (\<lambda>x. idf x = k) (generatedLayers mt) = Some r \<and>
              state (layer_at (store mt) r) = Some s)"
      with eq tr show False by (simp add: transfer_result_def ids)
    qed
  qed
  have ni: "oldLayerMap mt k \<noteq> Inherited" using ph by auto
  have mapk: "oldLayerMap (skipped r mt) k = oldLayerMap mt k"
    using assign_null_elsewhere [of k "idf r" "oldLayerMap mt"] nk ni by (simp add: ids)
  have g1: "layer_id (layer_at (store (skipped r mt)) x) = idf x" for x
    by (simp add: ids)
  have g2: "idf x = j" if "oldLayerMap (skipped r mt) j = Old x" for j x
    using that olds by simp
  have st: "state (layer_at (store (skipped r mt)) x) = state (layer_at (store mt) x)" for x
    by simp
  show ?thesis
    unfolding lineage_def using g1 g2 olk olg ph
    by (simp only: mapk st skipped_simps(2)) blast
qed

lemma lineage_entered:
  assumes L: "lineage idf k ol s mt" and ne: "r \<noteq> ol" and tr: "transfer_result r mt = Inr w1"
  shows "lineage idf k ol s (entered r w1 mt)"
proof -
  let ?e = "entered r w1 mt"
  from L have ids: "\<And>x. layer_id (layer_at (store mt) x) = idf x"
    and olds: "\<And>j x. oldLayerMap mt j = Old x \<Longrightarrow> idf x = j"
    and olk: "idf ol = k" and olg: "ol \<notin> set (generatedLayers mt)"
    and ph: "(oldLayerMap mt k = Old ol \<and> state (layer_at (store mt) ol) = Some s \<and>
         k \<notin> idf ` set (generatedLayers mt)) \<or>
      (oldLayerMap mt k = Null_slot \<and> state (layer_at (store mt) ol) = None \<and>
         (\<exists>r. find (\<lambda>x. idf x = k) (generatedLayers mt) = Some r \<and>
              state (layer_at (store mt) r) = Some s))"
    by (simp_all add: lineage_def)
  have key: "layer_id (layer_at (store mt) r) = idf r" by (rule ids)
  have g1: "layer_id (layer_at (store ?e) x) = idf x" for x
    using entered_layer_id [OF tr, of x] by (simp add: ids)
  have g2: "idf x = j" if "oldLayerMap ?e j = Old x" for j x
    using that olds by simp
  have g4: "ol \<notin> set (generatedLayers ?e)" using olg ne by simp
  have ni: "oldLayerMap mt k \<noteq> Inherited" using ph by auto
  have g5: "(oldLayerMap ?e k = Old ol \<and> state (layer_at (store ?e) ol) = Some s \<and>
         k \<notin> idf ` set (generatedLayers ?e)) \<or>
      (oldLayerMap ?e k = Null_slot \<and> state (layer_at (store ?e) ol) = None \<and>
         (\<exists>r. find (\<lambda>x. idf x = k) (generatedLayers ?e) = Some r \<and>
              state (layer_at (store ?e) r) = Some s))"
  proof (cases "idf r = k")
    case False
    have mapk: "oldLayerMap ?e k = oldLayerMap mt k"
      using assign_null_elsewhere [of k "idf r" "oldLayerMap mt"] False ni by (simp add: ids)
    have no: "oldLayerMap mt (layer_id (layer_at (store mt) r)) \<noteq> Old x" if "idf x = k" for x
      using olds [of "idf r" x] that False by (auto simp: key)
    have same: "layer_at (store ?e) x = layer_at (store mt) x" if "idf x = k" for x
    proof -
      from that False have "x \<noteq> r" by auto
      then show ?thesis using entered_other_layer [OF tr _ no [OF that]] by simp
    qed
    from ph show ?thesis
    proof
      assume a: "oldLayerMap mt k = Old ol \<and> state (layer_at (store mt) ol) = Some s \<and>
         k \<notin> idf ` set (generatedLayers mt)"
      then have "k \<notin> idf ` set (generatedLayers ?e)" using False by auto
      with a show ?thesis by (simp only: mapk same [OF olk]) simp
    next
      assume b: "oldLayerMap mt k = Null_slot \<and> state (layer_at (store mt) ol) = None \<and>
         (\<exists>r. find (\<lambda>x. idf x = k) (generatedLayers mt) = Some r \<and>
              state (layer_at (store mt) r) = Some s)"
      then obtain r0 where r0: "find (\<lambda>x. idf x = k) (generatedLayers mt) = Some r0"
        "state (layer_at (store mt) r0) = Some s" by blast
      from find_Some_holds [OF r0(1)] have "idf r0 = k" by simp
      then have "state (layer_at (store ?e) r0) = Some s" using same r0(2) by simp
      moreover have "find (\<lambda>x. idf x = k) (generatedLayers ?e) = Some r0"
        using r0(1) by (simp add: find_append_first)
      ultimately show ?thesis using b by (simp only: mapk same [OF olk]) simp
    qed
  next
    case True
    from ph show ?thesis
    proof
      assume a: "oldLayerMap mt k = Old ol \<and> state (layer_at (store mt) ol) = Some s \<and>
         k \<notin> idf ` set (generatedLayers mt)"
      then have slot: "oldLayerMap mt (layer_id (layer_at (store mt) r)) = Old ol"
        by (simp add: key True)
      have w1r: "state (layer_at w1 r) = Some s" and w1o: "state (layer_at w1 ol) = None"
        using transfer_result_layer_at [OF tr, of r] transfer_result_layer_at [OF tr, of ol]
          slot ne a by simp_all
      have "snd (initializeNewLayer r w1) = w1"
        using w1r by (simp add: initializeNewLayer_has_state)
      then have st: "layer_at (store ?e) = layer_at w1" by (simp add: entered_store)
      have m: "oldLayerMap ?e k = Null_slot"
        using a by (simp add: key True assign_null_other)
      have "find (\<lambda>x. idf x = k) (generatedLayers mt) = None"
        using a by (simp add: find_None_image)
      then have "find (\<lambda>x. idf x = k) (generatedLayers ?e) = Some r"
        using True by (simp add: find_append_first)
      with m w1r w1o show ?thesis by (simp add: st)
    next
      assume b: "oldLayerMap mt k = Null_slot \<and> state (layer_at (store mt) ol) = None \<and>
         (\<exists>r. find (\<lambda>x. idf x = k) (generatedLayers mt) = Some r \<and>
              state (layer_at (store mt) r) = Some s)"
      then obtain r0 where r0: "find (\<lambda>x. idf x = k) (generatedLayers mt) = Some r0"
        "state (layer_at (store mt) r0) = Some s" by blast
      have slot: "oldLayerMap mt (layer_id (layer_at (store mt) r)) = Null_slot"
        using b by (simp add: key True)
      then have no: "\<forall>y. oldLayerMap mt (layer_id (layer_at (store mt) r)) \<noteq> Old y" by simp
      have "state (layer_at (store ?e) r0) = Some s"
        by (rule entered_keeps_state [OF tr no r0(2)])
      moreover have "layer_at (store ?e) ol = layer_at (store mt) ol"
        using entered_other_layer [OF tr, of ol] ne slot by simp
      moreover have "oldLayerMap ?e k = Null_slot"
        using b by (simp add: key True assign_null_other)
      moreover have "find (\<lambda>x. idf x = k) (generatedLayers ?e) = Some r0"
        using r0(1) by (simp add: find_append_first)
      ultimately show ?thesis using b by simp
    qed
  qed
  show ?thesis
    unfolding lineage_def using g1 g2 olk g4 g5 by blast
qed

lemma lineage_matching:
  shows "lineage idf k ol s mt \<longrightarrow> ol \<notin> set (flatten_forest ts) \<longrightarrow>
      lineage idf k ol s (snd (matchSublayers ts mt))"
    and "lineage idf k ol s mt \<longrightarrow> ol \<notin> set (flatten_layer t) \<longrightarrow>
      lineage idf k ol s (snd (matchLayer t mt))"
proof (induction ts mt and t mt rule: match_induct)
  case (Nil mt)
  show ?case by simp
next
  case (Hole ts mt)
  then show ?case by simp
next
  case (Cons t ts mt)
  then show ?case by simp
next
  case (Layer r sublayers mt)
  show ?case
  proof (intro impI)
    assume L: "lineage idf k ol s mt" and nin: "ol \<notin> set (flatten_layer (Layer r sublayers))"
    then have ne: "r \<noteq> ol" by auto
    show "lineage idf k ol s (snd (matchLayer (Layer r sublayers) mt))"
    proof (cases "transfer_result r mt")
      case (Inl err)
      with lineage_skipped [OF L ne Inl] show ?thesis by (simp add: matchLayer_unfold)
    next
      case (Inr w1)
      note e = lineage_entered [OF L ne Inr]
      show ?thesis
      proof (cases sublayers)
        case (Raises err)
        with e Inr show ?thesis by (simp add: matchLayer_unfold)
      next
        case Null
        with e Inr show ?thesis by (simp add: matchLayer_unfold)
      next
        case (Single t)
        with nin have "ol \<notin> set (flatten_forest [Some t])" by simp
        with Layer(1) [OF Single Inr] e
        have "lineage idf k ol s (snd (matchSublayers [Some t] (entered r w1 mt)))" by blast
        then show ?thesis using Single Inr by (simp add: matchLayer_unfold)
      next
        case (Array ts)
        with nin have "ol \<notin> set (flatten_forest ts)" by simp
        with Layer(2) [OF Array Inr] e
        have "lineage idf k ol s (snd (matchSublayers ts (entered r w1 mt)))" by blast
        then show ?thesis using Array Inr by (simp add: matchLayer_unfold)
      qed
    qed
  qed
qed

lemma initial_lineage:
  assumes f: "find (\<lambda>x. layer_id (layer_at w x) = k) old = Some ol"
    and k: "k \<notin> set Object_prototype_keys" and s: "state (layer_at w ol) = Some s"
  shows "lineage (\<lambda>x. layer_id (layer_at w x)) k ol s
     \<lparr>oldLayerMap = create_oldLayerMap old w empty_object, generatedLayers = [], store = w\<rparr>"
proof -
  have "layer_id (layer_at w x) = j" if "create_oldLayerMap old w empty_object j = Old x" for j x
    using create_oldLayerMap_Old [OF that] by simp
  moreover have "layer_id (layer_at w ol) = k" using find_Some_holds [OF f] by simp
  moreover have "create_oldLayerMap old w empty_object k = Old ol"
    using f k by (simp add: create_oldLayerMap_find empty_object_def)
  ultimately show ?thesis unfolding lineage_def using s by simp
qed


lemma stateless_sibling_first:
  "layers (fst (after_first_frame store_stateless_sibling stateless_sibling_frame1)) = [0, 1]"
  "map (\<lambda>r. layer_id (layer_at (snd (after_first_frame store_stateless_sibling stateless_sibling_frame1)) r))
     [0, 1, 2, 3] = [''a'', ''c'', ''a'', ''c'']"
  "next_state (snd (after_first_frame store_stateless_sibling stateless_sibling_frame1)) = 1"
  by (simp_all add: store_stateless_sibling_def stateless_sibling_frame1_def run_defs)

lemma stateless_sibling_first_states:
  "state (layer_at (snd (after_first_frame store_stateless_sibling stateless_sibling_frame1)) x) =
     (if x = 0 then Some 0 else None)"
  by (simp add: store_stateless_sibling_def stateless_sibling_frame1_def run_defs nth_Cons
      split: nat.splits)

lemma stateless_sibling_first_owners:
  "owners_ok (snd (after_first_frame store_stateless_sibling stateless_sibling_frame1))"
  unfolding owners_ok_def single_owner_def
  by (auto simp: stateless_sibling_first_states stateless_sibling_first(3) split: if_splits)

lemma stateless_sibling_second:
  "(let (m1, w1) = after_first_frame store_stateless_sibling stateless_sibling_frame1
    in layers (fst (snd (updateLayers stateless_sibling_frame2 m1 w1)))) = [2]"
  by (simp add: store_stateless_sibling_def stateless_sibling_frame1_def
      stateless_sibling_frame2_def run_defs)



end
